theory Spec2Isabelle
  imports Main "HOL-Library.Word"
begin

section \<open>PDF2PNG: the conversion, its cache and the page viewer\<close>

text \<open>
  The repository holds three Streamlit scripts. \<^verbatim>\<open>app.py\<close> converts at module level;
  \<^verbatim>\<open>app1.py\<close> and \<^verbatim>\<open>app2.py\<close> share a memoized function \<^verbatim>\<open>perform_conversion\<close>
  and keep the last result in the session state; \<^verbatim>\<open>app1.py\<close> adds a one-page viewer
  with Previous/Next buttons.
\<close>

subsection \<open>Values\<close>

type_synonym bytes = "8 word list"

text \<open>
  Python exceptions, each with the text that \<^verbatim>\<open>str(e)\<close> gives. Every class below
  derives from \<^verbatim>\<open>Exception\<close>. \<open>LibraryError\<close> stands for whatever pdf2image, Poppler
  or Pillow raise (\<^verbatim>\<open>PDFInfoNotInstalledError\<close>, \<^verbatim>\<open>PDFPageCountError\<close>, ...).
\<close>

datatype exn =
    ValueError string
  | IndexError string
  | AttributeError string
  | LibraryError string

fun str_exn :: "exn \<Rightarrow> string" where
  "str_exn (ValueError m) = m"
| "str_exn (IndexError m) = m"
| "str_exn (AttributeError m) = m"
| "str_exn (LibraryError m) = m"

subsection \<open>The format specification \<^verbatim>\<open>{n:03d}\<close>\<close>

definition digit_char :: "nat \<Rightarrow> char" where
  "digit_char d = ''0123456789'' ! (d mod 10)"

fun decimal :: "nat \<Rightarrow> string" where
  "decimal n = (if n < 10 then [digit_char n] else decimal (n div 10) @ [digit_char (n mod 10)])"

declare decimal.simps [simp del]

text \<open>
  \<^verbatim>\<open>format(n, "03d")\<close> for \<open>n \<ge> 0\<close>: the decimal numeral, padded on the left with
  zeros up to a width of 3. The width is a minimum: a longer numeral is not cut.
\<close>

definition format_03d :: "nat \<Rightarrow> string" where
  "format_03d n = replicate (3 - length (decimal n)) CHR ''0'' @ decimal n"

text \<open>\<^verbatim>\<open>f"page_{i + 1:03d}.png"\<close> (app1.py, app2.py).\<close>

definition page_name :: "nat \<Rightarrow> string" where
  "page_name i = ''page_'' @ format_03d (i + 1) @ ''.png''"

text \<open>\<^verbatim>\<open>f"{pdf_filename}_page_{i + 1:03d}.png"\<close> (app.py, and the single-page downloads).\<close>

definition named_page_name :: "string \<Rightarrow> nat \<Rightarrow> string" where
  "named_page_name pdf_filename i = pdf_filename @ ''_page_'' @ format_03d (i + 1) @ ''.png''"

subsection \<open>The ZIP archive\<close>

text \<open>
  An archive under construction is the list of its members in the order they were
  written. \<^verbatim>\<open>ZipFile.writestr(name, data)\<close> with a plain name appends a member stamped
  with the current local time; \<^verbatim>\<open>ZipFile.read(name)\<close> returns the data of the member
  written last under that name. The byte stream \<^verbatim>\<open>zip_buffer.getvalue()\<close> is the
  serialisation of this list (names, time stamps, deflated data).
\<close>

type_synonym date_time = "nat \<times> nat \<times> nat \<times> nat \<times> nat \<times> nat"

record zip_info =
  filename :: string
  date_time :: date_time
  data :: bytes

type_synonym zip_file = "zip_info list"

definition writestr :: "zip_file \<Rightarrow> date_time \<Rightarrow> string \<Rightarrow> bytes \<Rightarrow> zip_file" where
  "writestr zf now arcname bs = zf @ [\<lparr>filename = arcname, date_time = now, data = bs\<rparr>]"

definition zip_read :: "zip_file \<Rightarrow> string \<Rightarrow> bytes option" where
  "zip_read zf arcname = map_option data (find (\<lambda>m. filename m = arcname) (rev zf))"

definition namelist :: "zip_file \<Rightarrow> string list" where
  "namelist zf = map filename zf"

subsection \<open>The collaborators and the world\<close>

text \<open>
  The renderer \<^verbatim>\<open>pdf2image.convert_from_bytes\<close>, the PNG encoder
  \<^verbatim>\<open>image.save(buffer, format="PNG")\<close> and the wall clock are outside the repository:
  they are parameters. \<open>localtime k\<close> is what the clock shows at its \<open>k\<close>-th reading.
\<close>

record 'img env =
  convert_from_bytes :: "bytes \<Rightarrow> int \<Rightarrow> exn + 'img list"
  save_png :: "'img \<Rightarrow> exn + bytes"
  localtime :: "nat \<Rightarrow> date_time"

text \<open>
  What the conversion does to the world: \<open>renders\<close> counts the invocations of the
  renderer, \<open>clock_reads\<close> the readings of the clock.
\<close>

record world =
  renders :: nat
  clock_reads :: nat

subsection \<open>\<^verbatim>\<open>perform_conversion\<close> (app1.py, app2.py)\<close>

text \<open>
  The loop \<^verbatim>\<open>for i, image in enumerate(images)\<close>: encode the page, append its bytes to
  \<^verbatim>\<open>image_bytes_list\<close>, write it to the archive. An exception of the encoder leaves the
  loop at that page. The member name is a parameter, since app.py writes other names.
\<close>

fun zip_loop ::
  "'img env \<Rightarrow> (nat \<Rightarrow> string) \<Rightarrow> (nat \<times> 'img) list \<Rightarrow> bytes list \<times> zip_file \<Rightarrow> world
    \<Rightarrow> (exn + bytes list \<times> zip_file) \<times> world" where
  "zip_loop E arcname [] acc w = (Inr acc, w)"
| "zip_loop E arcname ((i, img) # rest) (image_bytes_list, zf) w =
     (case save_png E img of
        Inl e \<Rightarrow> (Inl e, w)
      | Inr img_bytes \<Rightarrow>
          zip_loop E arcname rest
            (image_bytes_list @ [img_bytes],
             writestr zf (localtime E (clock_reads w)) (arcname i) img_bytes)
            (w\<lparr>clock_reads := Suc (clock_reads w)\<rparr>))"

text \<open>The body of the \<^verbatim>\<open>try\<close> block.\<close>

definition conversion_try ::
  "'img env \<Rightarrow> (nat \<Rightarrow> string) \<Rightarrow> bytes \<Rightarrow> int \<Rightarrow> world
    \<Rightarrow> (exn + bytes list \<times> zip_file) \<times> world" where
  "conversion_try E arcname pdf_bytes dpi w =
     (let w1 = w\<lparr>renders := Suc (renders w)\<rparr> in
      case convert_from_bytes E pdf_bytes dpi of
        Inl e \<Rightarrow> (Inl e, w1)
      | Inr images \<Rightarrow> zip_loop E arcname (enumerate 0 images) ([], []) w1)"

text \<open>
  The pair the function returns: \<^verbatim>\<open>(image_bytes_list, zip_buffer.getvalue())\<close>, or
  \<^verbatim>\<open>(None, str(e))\<close> from the \<^verbatim>\<open>except Exception\<close> clause.
\<close>

datatype payload = ZipData zip_file | ErrorText string

type_synonym conversion = "bytes list option \<times> payload"

definition conversion_body ::
  "'img env \<Rightarrow> bytes \<Rightarrow> int \<Rightarrow> world \<Rightarrow> conversion \<times> world" where
  "conversion_body E pdf_bytes dpi w =
     (case conversion_try E page_name pdf_bytes dpi w of
        (Inr (image_bytes_list, zf), w') \<Rightarrow> ((Some image_bytes_list, ZipData zf), w')
      | (Inl e, w') \<Rightarrow> ((None, ErrorText (str_exn e)), w'))"

subsection \<open>The memoization \<^verbatim>\<open>@st.cache_data(max_entries=5)\<close>\<close>

text \<open>
  The decorator keys the stored results on the arguments' contents, here the pair
  \<^verbatim>\<open>(pdf_bytes, dpi)\<close>, and stores the value the decorated function returns. The
  source's comment: "This function is cached and will only run when the input changes."
\<close>

type_synonym request = "bytes \<times> int"

type_synonym cache = "(request \<times> conversion) list"

definition max_entries :: nat where
  "max_entries = 5"

text \<open>
  Modelled from the spec: the store behind \<^verbatim>\<open>st.cache_data\<close> is the framework's, not
  code of the repository. The spec gives it as a mapping from request to result, looked up by
  exact match, holding at most one result per request, of bounded capacity, evicting
  the oldest-inserted entry when the capacity is exceeded. The list is in insertion
  order, oldest first.
\<close>

definition cache_lookup :: "cache \<Rightarrow> request \<Rightarrow> conversion option" where
  "cache_lookup c k = map_of c k"

definition cache_store :: "cache \<Rightarrow> request \<Rightarrow> conversion \<Rightarrow> cache" where
  "cache_store c k v =
     (let c' = filter (\<lambda>(k', v'). k' \<noteq> k) c @ [(k, v)]
      in drop (length c' - max_entries) c')"

text \<open>
  The decorated function: on a hit the stored value is returned and the body does not
  run; on a miss the body runs and what it returns is stored.
\<close>

definition perform_conversion ::
  "'img env \<Rightarrow> bytes \<Rightarrow> int \<Rightarrow> cache \<times> world \<Rightarrow> conversion \<times> cache \<times> world" where
  "perform_conversion E pdf_bytes dpi cw =
     (case cw of (c, w) \<Rightarrow>
        (case cache_lookup c (pdf_bytes, dpi) of
           Some r \<Rightarrow> (r, c, w)
         | None \<Rightarrow>
             (case conversion_body E pdf_bytes dpi w of
                (r, w') \<Rightarrow> (r, cache_store c (pdf_bytes, dpi) r, w'))))"

text \<open>A sequence of calls, threading the cache and the world; the results in call order.\<close>

fun perform_conversions ::
  "'img env \<Rightarrow> request list \<Rightarrow> cache \<times> world \<Rightarrow> conversion list \<times> cache \<times> world" where
  "perform_conversions E [] cw = ([], cw)"
| "perform_conversions E ((pdf_bytes, dpi) # rest) cw =
     (case perform_conversion E pdf_bytes dpi cw of
        (r, cw') \<Rightarrow>
          (case perform_conversions E rest cw' of (rs, cw'') \<Rightarrow> (r # rs, cw'')))"

subsection \<open>Reading the configured resolution\<close>

text \<open>
  \<^verbatim>\<open>int(s)\<close> on a string, base 10: surrounding white space is dropped, one sign is
  allowed, then digits, with single underscores between digits. Anything else raises
  \<^verbatim>\<open>ValueError\<close>. (ASCII only: an environment value with other Unicode digits or
  spaces is outside this model.)
\<close>

definition is_space :: "char \<Rightarrow> bool" where
  "is_space c = (of_char c \<in> {9, 10, 11, 12, 13, 32 :: nat})"

definition is_digit :: "char \<Rightarrow> bool" where
  "is_digit c = (48 \<le> (of_char c :: nat) \<and> (of_char c :: nat) \<le> 57)"

definition digit_of :: "char \<Rightarrow> nat" where
  "digit_of c = of_char c - 48"

fun digits_acc :: "nat \<Rightarrow> string \<Rightarrow> nat option" where
  "digits_acc a [] = Some a"
| "digits_acc a [c] = (if is_digit c then Some (10 * a + digit_of c) else None)"
| "digits_acc a (c # d # ds) =
     (if is_digit c then digits_acc (10 * a + digit_of c) (d # ds)
      else if c = CHR ''_'' \<and> is_digit d then digits_acc (10 * a + digit_of d) ds
      else None)"

definition invalid_literal :: exn where
  "invalid_literal = ValueError ''invalid literal for int() with base 10''"

definition py_int :: "string \<Rightarrow> exn + int" where
  "py_int s =
     (let t = rev (dropWhile is_space (rev (dropWhile is_space s)));
          negative = (case t of c # cs \<Rightarrow> c = CHR ''-'' | [] \<Rightarrow> False);
          u = (case t of c # cs \<Rightarrow> if c = CHR ''-'' \<or> c = CHR ''+'' then cs else t | [] \<Rightarrow> [])
      in case u of
           [] \<Rightarrow> Inl invalid_literal
         | c # cs \<Rightarrow>
             if is_digit c then
               (case digits_acc (digit_of c) cs of
                  None \<Rightarrow> Inl invalid_literal
                | Some n \<Rightarrow> Inr (if negative then - int n else int n))
             else Inl invalid_literal)"

text \<open>
  \<^verbatim>\<open>int(os.getenv("OUTPUT_DPI", 300))\<close>: the argument is the value of the variable
  after \<^verbatim>\<open>load_dotenv()\<close>, \<open>None\<close> when it is unset.
\<close>

definition configured_dpi :: "string option \<Rightarrow> exn + int" where
  "configured_dpi output_dpi = (case output_dpi of None \<Rightarrow> Inr 300 | Some s \<Rightarrow> py_int s)"

subsection \<open>Uploaded files and \<^verbatim>\<open>os.path.splitext\<close>\<close>

record upload =
  name :: string
  file_id :: string
  getvalue :: bytes

definition rfind :: "string \<Rightarrow> char \<Rightarrow> int" where
  "rfind p c =
     (case filter (\<lambda>k. p ! k = c) (rev [0..<length p]) of [] \<Rightarrow> - 1 | k # ks \<Rightarrow> int k)"

text \<open>
  \<^verbatim>\<open>os.path.splitext(p)[0]\<close> (POSIX): cut at the last dot, if it comes after the last
  slash and some character between them is not a dot.
\<close>

definition splitext_root :: "string \<Rightarrow> string" where
  "splitext_root p =
     (let sepIndex = rfind p CHR ''/''; dotIndex = rfind p CHR ''.''
      in if dotIndex > sepIndex \<and>
            list_ex (\<lambda>k. p ! k \<noteq> CHR ''.'') [nat (sepIndex + 1)..<nat dotIndex]
         then take (nat dotIndex) p else p)"

subsection \<open>app.py\<close>

datatype app_screen =
    UploadPrompt
  | ConversionFailed string
  | ConversionShown zip_file string "(string \<times> bytes) list"

text \<open>
  One run of the script. The resolution is read at module level, outside any
  \<^verbatim>\<open>try\<close>; the conversion and the display are inside one. The screen of a success is
  the archive with its download name, and the pages with theirs.
\<close>

definition app_script ::
  "'img env \<Rightarrow> string option \<Rightarrow> upload option \<Rightarrow> world \<Rightarrow> (exn + app_screen) \<times> world" where
  "app_script E output_dpi uploaded w =
     (case configured_dpi output_dpi of
        Inl e \<Rightarrow> (Inl e, w)
      | Inr DPI \<Rightarrow>
          (case uploaded of
             None \<Rightarrow> (Inr UploadPrompt, w)
           | Some f \<Rightarrow>
               (let pdf_filename = splitext_root (name f) in
                case conversion_try E (named_page_name pdf_filename) (getvalue f) DPI w of
                  (Inl e, w') \<Rightarrow> (Inr (ConversionFailed (str_exn e)), w')
                | (Inr (image_bytes_list, zf), w') \<Rightarrow>
                    (Inr (ConversionShown zf (pdf_filename @ ''_all_pages.zip'')
                           (map (\<lambda>(i, img_bytes). (named_page_name pdf_filename i, img_bytes))
                              (enumerate 0 image_bytes_list))), w'))))"

subsection \<open>The session state (app1.py, app2.py)\<close>

text \<open>
  \<^verbatim>\<open>st.session_state\<close> with the keys the scripts use; \<open>None\<close> is an absent key.
  \<^verbatim>\<open>image_bytes_list\<close> holds \<^verbatim>\<open>None\<close> or a list once it is set.
\<close>

record session_state =
  current_page_index :: "int option"
  image_bytes_list :: "bytes list option option"
  zip_data :: "payload option"
  last_file_id :: "string option"
  last_dpi :: "int option"
  pdf_filename :: "string option"
  total_pages :: "int option"

text \<open>The state of a new session, and the state after \<^verbatim>\<open>st.session_state.clear()\<close>.\<close>

definition session_clear :: session_state where
  "session_clear =
     \<lparr>current_page_index = None, image_bytes_list = None, zip_data = None,
      last_file_id = None, last_dpi = None, pdf_filename = None, total_pages = None\<rparr>"

text \<open>Reading \<^verbatim>\<open>st.session_state.key\<close> raises \<^verbatim>\<open>AttributeError\<close> when the key is absent.\<close>

definition attribute :: "string \<Rightarrow> 'a option \<Rightarrow> exn + 'a" where
  "attribute key v = (case v of None \<Rightarrow> Inl (AttributeError key) | Some x \<Rightarrow> Inr x)"

text \<open>\<^verbatim>\<open>xs[i]\<close> on a list: negative indices count from the end.\<close>

definition list_getitem :: "'a list \<Rightarrow> int \<Rightarrow> exn + 'a" where
  "list_getitem xs i =
     (let n = int (length xs); j = (if i < 0 then i + n else i)
      in if 0 \<le> j \<and> j < n then Inr (xs ! nat j)
         else Inl (IndexError ''list index out of range''))"

text \<open>\<^verbatim>\<open>format(n, "03d")\<close> on any integer: the sign counts in the width.\<close>

definition format_03d_int :: "int \<Rightarrow> string" where
  "format_03d_int n =
     (if n < 0 then
        CHR ''-'' # replicate (2 - length (decimal (nat (- n)))) CHR ''0'' @ decimal (nat (- n))
      else format_03d (nat n))"

text \<open>
  What the widgets return in one run of a script: the uploaded file, the selected
  resolution, whether an \<^verbatim>\<open>on_change\<close> callback fired before the run, and the two
  buttons. A run may be given any combination.
\<close>

record run_input =
  uploaded_file :: "upload option"
  dpi :: int
  uploader_changed :: bool
  dpi_changed :: bool
  previous_clicked :: bool
  next_clicked :: bool

type_synonym app_state = "session_state \<times> cache \<times> world"

datatype notice = ShowSuccess int | ShowError payload | ShowInfo

text \<open>
  The guard of the conversion:
  \<^verbatim>\<open>"last_file_id" not in st.session_state or st.session_state.last_file_id != file_id
  or st.session_state.last_dpi != dpi\<close>.
\<close>

definition conversion_needed :: "session_state \<Rightarrow> string \<Rightarrow> int \<Rightarrow> exn + bool" where
  "conversion_needed ss fid d =
     (case last_file_id ss of
        None \<Rightarrow> Inr True
      | Some lf \<Rightarrow>
          if lf \<noteq> fid then Inr True
          else (case attribute ''last_dpi'' (last_dpi ss) of
                  Inl e \<Rightarrow> Inl e
                | Inr ld \<Rightarrow> Inr (ld \<noteq> d)))"

subsection \<open>app1.py: the page viewer\<close>

text \<open>Lines 100 to 118: convert when the guard says so, store the result, clear on error.\<close>

definition app1_convert ::
  "'img env \<Rightarrow> upload \<Rightarrow> int \<Rightarrow> app_state \<Rightarrow> (exn + notice option) \<times> app_state" where
  "app1_convert E f d s =
     (case s of (ss, c, w) \<Rightarrow>
        (case conversion_needed ss (file_id f) d of
           Inl e \<Rightarrow> (Inl e, s)
         | Inr False \<Rightarrow> (Inr None, s)
         | Inr True \<Rightarrow>
             (case perform_conversion E (getvalue f) d (c, w) of
                (r, c', w') \<Rightarrow>
                  (let n = (case fst r of Some l \<Rightarrow> int (length l) | None \<Rightarrow> 0);
                       ss1 = ss\<lparr>image_bytes_list := Some (fst r), zip_data := Some (snd r),
                                last_file_id := Some (file_id f), last_dpi := Some d,
                                pdf_filename := Some (splitext_root (name f)),
                                total_pages := Some n, current_page_index := Some 0\<rparr>
                   in case fst r of
                        Some l \<Rightarrow> (Inr (Some (ShowSuccess n)), (ss1, c', w'))
                      | None \<Rightarrow> (Inr (Some (ShowError (snd r))), (session_clear, c', w'))))))"

record page_view =
  shown_index :: int
  shown_total :: int
  shown_bytes :: bytes
  shown_name :: string

text \<open>
  Lines 121 to 164: show the current page and the buttons. A disabled button returns
  \<^verbatim>\<open>False\<close>. A click changes the index and asks for a rerun; the page of this run has
  been shown by then.
\<close>

definition app1_display ::
  "run_input \<Rightarrow> session_state \<Rightarrow> (exn + page_view option \<times> bool) \<times> session_state" where
  "app1_display inp ss =
     (case image_bytes_list ss of
        Some (Some l) \<Rightarrow>
          (case attribute ''total_pages'' (total_pages ss) of
             Inl e \<Rightarrow> (Inl e, ss)
           | Inr tp \<Rightarrow>
               if tp > 0 then
                 (case attribute ''current_page_index'' (current_page_index ss) of
                    Inl e \<Rightarrow> (Inl e, ss)
                  | Inr current_index \<Rightarrow>
                      (case list_getitem l current_index of
                         Inl e \<Rightarrow> (Inl e, ss)
                       | Inr current_image_bytes \<Rightarrow>
                           (case attribute ''pdf_filename'' (pdf_filename ss) of
                              Inl e \<Rightarrow> (Inl e, ss)
                            | Inr fn \<Rightarrow>
                                (let v = \<lparr>shown_index = current_index, shown_total = tp,
                                          shown_bytes = current_image_bytes,
                                          shown_name = fn @ ''_page_'' @
                                            format_03d_int (current_index + 1) @ ''.png''\<rparr>
                                 in if previous_clicked inp \<and> \<not> current_index = 0 then
                                      (Inr (Some v, True),
                                       ss\<lparr>current_page_index := Some (current_index - 1)\<rparr>)
                                    else if next_clicked inp \<and> \<not> current_index = tp - 1 then
                                      (Inr (Some v, True),
                                       ss\<lparr>current_page_index := Some (current_index + 1)\<rparr>)
                                    else (Inr (Some v, False), ss)))))
               else (Inr (None, False), ss))
      | _ \<Rightarrow> (Inr (None, False), ss))"

text \<open>
  Lines 78 to 86: the archive button of the sidebar, from the state the previous run
  left. \<open>truthy\<close> is the truth value of the bytes or the string.
\<close>

definition truthy :: "payload \<Rightarrow> bool" where
  "truthy p = (case p of ZipData zf \<Rightarrow> True | ErrorText t \<Rightarrow> t \<noteq> [])"

definition app1_sidebar :: "session_state \<Rightarrow> exn + (payload \<times> string) option" where
  "app1_sidebar ss =
     (case zip_data ss of
        None \<Rightarrow> Inr None
      | Some z \<Rightarrow>
          if truthy z then
            (case attribute ''pdf_filename'' (pdf_filename ss) of
               Inl e \<Rightarrow> Inl e
             | Inr fn \<Rightarrow> Inr (Some (z, fn @ ''_all_pages.zip'')))
          else Inr None)"

record app1_screen =
  archive_button :: "(payload \<times> string) option"
  notice :: "notice option"
  page :: "page_view option"
  rerun :: bool

text \<open>
  One execution of the script, top to bottom. The \<^verbatim>\<open>on_change\<close> callbacks run first
  and set the index to 0.
\<close>

definition app1_script ::
  "'img env \<Rightarrow> run_input \<Rightarrow> app_state \<Rightarrow> (exn + app1_screen) \<times> app_state" where
  "app1_script E inp s =
     (case s of (ss, c, w) \<Rightarrow>
        (let ss0 = (if uploader_changed inp \<or> dpi_changed inp
                    then ss\<lparr>current_page_index := Some 0\<rparr> else ss)
         in case app1_sidebar ss0 of
              Inl e \<Rightarrow> (Inl e, (ss0, c, w))
            | Inr button \<Rightarrow>
                (let ss1 = (if current_page_index ss0 = None
                            then ss0\<lparr>current_page_index := Some 0\<rparr> else ss0)
                 in case uploaded_file inp of
                      Some f \<Rightarrow>
                        (case app1_convert E f (dpi inp) (ss1, c, w) of
                           (Inl e, s') \<Rightarrow> (Inl e, s')
                         | (Inr note, (ss2, c', w')) \<Rightarrow>
                             (case app1_display inp ss2 of
                                (Inl e, ss3) \<Rightarrow> (Inl e, (ss3, c', w'))
                              | (Inr (pg, again), ss3) \<Rightarrow>
                                  (Inr \<lparr>archive_button = button, notice = note,
                                        page = pg, rerun = again\<rparr>, (ss3, c', w'))))
                    | None \<Rightarrow>
                        (Inr \<lparr>archive_button = button, notice = Some ShowInfo,
                              page = None, rerun = False\<rparr>,
                         ((if last_file_id ss1 \<noteq> None
                           then session_clear\<lparr>current_page_index := Some 0\<rparr> else ss1),
                          c, w)))))"

text \<open>
  One interaction: the script runs, and runs once more after \<^verbatim>\<open>st.rerun()\<close>, then with
  no callback and no button pressed. The screens are in the order they were drawn.
\<close>

definition app1_run ::
  "'img env \<Rightarrow> run_input \<Rightarrow> app_state \<Rightarrow> (exn + app1_screen list) \<times> app_state" where
  "app1_run E inp s =
     (case app1_script E inp s of
        (Inl e, s') \<Rightarrow> (Inl e, s')
      | (Inr scr, s') \<Rightarrow>
          if rerun scr then
            (case app1_script E
                    (inp\<lparr>uploader_changed := False, dpi_changed := False,
                         previous_clicked := False, next_clicked := False\<rparr>) s' of
               (Inl e, s'') \<Rightarrow> (Inl e, s'')
             | (Inr scr', s'') \<Rightarrow> (Inr [scr, scr'], s''))
          else (Inr [scr], s'))"

text \<open>A session: one interaction after the other, stopping at an uncaught exception.\<close>

fun app1_session ::
  "'img env \<Rightarrow> run_input list \<Rightarrow> app_state \<Rightarrow> (exn + app1_screen list) \<times> app_state" where
  "app1_session E [] s = (Inr [], s)"
| "app1_session E (inp # rest) s =
     (case app1_run E inp s of
        (Inl e, s') \<Rightarrow> (Inl e, s')
      | (Inr scrs, s') \<Rightarrow>
          (case app1_session E rest s' of
             (Inl e, s'') \<Rightarrow> (Inl e, s'')
           | (Inr later, s'') \<Rightarrow> (Inr (scrs @ later), s'')))"

subsection \<open>app2.py: the page grid\<close>

record app2_screen =
  notice2 :: "notice option"
  grid :: "(payload \<times> string \<times> (string \<times> bytes) list) option"

text \<open>Lines 84 to 99; the index and the page count are not kept here.\<close>

definition app2_convert ::
  "'img env \<Rightarrow> upload \<Rightarrow> int \<Rightarrow> app_state \<Rightarrow> (exn + notice option) \<times> app_state" where
  "app2_convert E f d s =
     (case s of (ss, c, w) \<Rightarrow>
        (case conversion_needed ss (file_id f) d of
           Inl e \<Rightarrow> (Inl e, s)
         | Inr False \<Rightarrow> (Inr None, s)
         | Inr True \<Rightarrow>
             (case perform_conversion E (getvalue f) d (c, w) of
                (r, c', w') \<Rightarrow>
                  (let ss1 = ss\<lparr>image_bytes_list := Some (fst r), zip_data := Some (snd r),
                                last_file_id := Some (file_id f), last_dpi := Some d,
                                pdf_filename := Some (splitext_root (name f))\<rparr>
                   in case fst r of
                        Some l \<Rightarrow> (Inr (Some (ShowSuccess (int (length l)))), (ss1, c', w'))
                      | None \<Rightarrow> (Inr (Some (ShowError (snd r))), (session_clear, c', w'))))))"

text \<open>Lines 102 to 150: the archive button and one download per page.\<close>

definition app2_display ::
  "session_state \<Rightarrow> exn + (payload \<times> string \<times> (string \<times> bytes) list) option" where
  "app2_display ss =
     (case image_bytes_list ss of
        Some (Some l) \<Rightarrow>
          (case attribute ''zip_data'' (zip_data ss) of
             Inl e \<Rightarrow> Inl e
           | Inr z \<Rightarrow>
               (case attribute ''pdf_filename'' (pdf_filename ss) of
                  Inl e \<Rightarrow> Inl e
                | Inr fn \<Rightarrow>
                    Inr (Some (z, fn @ ''_all_pages.zip'',
                               map (\<lambda>(i, img_bytes). (named_page_name fn i, img_bytes))
                                 (enumerate 0 l)))))
      | _ \<Rightarrow> Inr None)"

definition app2_script ::
  "'img env \<Rightarrow> upload option \<Rightarrow> int \<Rightarrow> app_state \<Rightarrow> (exn + app2_screen) \<times> app_state" where
  "app2_script E uploaded d s =
     (case uploaded of
        Some f \<Rightarrow>
          (case app2_convert E f d s of
             (Inl e, s') \<Rightarrow> (Inl e, s')
           | (Inr note, (ss, c, w)) \<Rightarrow>
               (case app2_display ss of
                  Inl e \<Rightarrow> (Inl e, (ss, c, w))
                | Inr g \<Rightarrow> (Inr \<lparr>notice2 = note, grid = g\<rparr>, (ss, c, w))))
      | None \<Rightarrow>
          (case s of (ss, c, w) \<Rightarrow>
             (Inr \<lparr>notice2 = Some ShowInfo, grid = None\<rparr>,
              ((if last_file_id ss \<noteq> None then session_clear else ss), c, w))))"

subsection \<open>Notions used in the statements\<close>

text \<open>The number that a string of decimal digits denotes.\<close>

definition digits_value :: "string \<Rightarrow> nat" where
  "digits_value ds = foldl (\<lambda>a c. 10 * a + digit_of c) 0 ds"

text \<open>
  An archive holds the pages \<open>l\<close> under the names \<open>nm\<close>: as many members as pages, the
  \<open>i\<close>-th member (from 0) named \<open>nm i\<close> with the \<open>i\<close>-th page as its data, and reading
  that name back gives that page.
\<close>

definition archive_holds :: "(nat \<Rightarrow> string) \<Rightarrow> zip_file \<Rightarrow> bytes list \<Rightarrow> bool" where
  "archive_holds nm zf l =
     (length zf = length l \<and>
      (\<forall>i<length l. filename (zf ! i) = nm i \<and> data (zf ! i) = l ! i \<and>
                       zip_read zf (nm i) = Some (l ! i)))"

text \<open>What an archive holds apart from the time stamps: the names and the data, in order.\<close>

definition unstamped :: "payload \<Rightarrow> string + (string \<times> bytes) list" where
  "unstamped p =
     (case p of
        ZipData zf \<Rightarrow> Inr (map (\<lambda>m. (filename m, data m)) zf)
      | ErrorText t \<Rightarrow> Inl t)"

text \<open>
  The shape of the session state between two runs of app1.py: the keys that are set
  together are present together, and the index is a page of the stored list.
\<close>

definition session_ok :: "session_state \<Rightarrow> bool" where
  "session_ok ss =
     ((last_file_id ss = None \<or> last_dpi ss \<noteq> None) \<and>
      (zip_data ss = None \<or> pdf_filename ss \<noteq> None) \<and>
      (case image_bytes_list ss of
         Some (Some l) \<Rightarrow>
           total_pages ss = Some (int (length l)) \<and> pdf_filename ss \<noteq> None \<and>
           (case current_page_index ss of
              None \<Rightarrow> False
            | Some i \<Rightarrow> 0 \<le> i \<and> (i < int (length l) \<or> i = 0))
       | _ \<Rightarrow> True))"

text \<open>The page that a screen shows, if any, is one of the pages \<open>0\<close> to \<open>total_pages - 1\<close>.\<close>

definition page_in_bounds :: "app1_screen \<Rightarrow> bool" where
  "page_in_bounds scr =
     (case page scr of
        None \<Rightarrow> True
      | Some v \<Rightarrow> 0 \<le> shown_index v \<and> shown_index v \<le> shown_total v - 1)"

text \<open>The page that a screen shows, if any, is the first one.\<close>

definition first_page_or_none :: "app1_screen \<Rightarrow> bool" where
  "first_page_or_none scr = (case page scr of None \<Rightarrow> True | Some v \<Rightarrow> shown_index v = 0)"

text \<open>
  The file and the resolution that the session state remembers are those the widgets
  returned in the given run, or none.
\<close>

definition remembers :: "session_state \<Rightarrow> run_input \<Rightarrow> bool" where
  "remembers ss inp =
     (case last_file_id ss of
        None \<Rightarrow> True
      | Some lf \<Rightarrow>
          map_option file_id (uploaded_file inp) = Some lf \<and> last_dpi ss = Some (dpi inp))"

section \<open>Properties\<close>

subsection \<open>Page names\<close>

lemma below_ten:
  "(k::nat) < 10 \<Longrightarrow>
     k = 0 \<or> k = 1 \<or> k = 2 \<or> k = 3 \<or> k = 4 \<or> k = 5 \<or> k = 6 \<or> k = 7 \<or> k = 8 \<or> k = 9"
  by arith

lemma digit_of_digit_char: "digit_of (digit_char d) = d mod 10"
proof -
  have "d mod 10 < 10" by simp
  from below_ten [OF this] show ?thesis
    unfolding digit_char_def digit_of_def by (elim disjE) simp_all
qed

lemma digits_value_snoc: "digits_value (ds @ [c]) = 10 * digits_value ds + digit_of c"
  by (simp add: digits_value_def)

lemma digits_value_decimal: "digits_value (decimal n) = n"
proof (induction n rule: decimal.induct)
  case (1 n)
  show ?case
  proof (cases "n < 10")
    case True
    then show ?thesis
      by (simp add: decimal.simps [of n] digits_value_def digit_of_digit_char)
  next
    case False
    with 1 show ?thesis
      by (simp add: decimal.simps [of n] digits_value_snoc digit_of_digit_char)
  qed
qed

lemma digit_of_zero: "digit_of CHR ''0'' = 0"
  by (simp add: digit_of_def)

lemma digits_value_zeros: "digits_value (replicate k CHR ''0'' @ ds) = digits_value ds"
  by (induction k) (simp_all add: digits_value_def digit_of_zero)

lemma digits_value_format_03d: "digits_value (format_03d n) = n"
  by (simp add: format_03d_def digits_value_zeros digits_value_decimal)

lemma format_03d_inj: "format_03d m = format_03d n \<Longrightarrow> m = n"
  by (metis digits_value_format_03d)

lemma page_name_inj: "page_name i = page_name j \<Longrightarrow> i = j"
  by (auto simp: page_name_def dest: format_03d_inj)

lemma named_page_name_inj: "named_page_name p i = named_page_name p j \<Longrightarrow> i = j"
  by (auto simp: named_page_name_def dest: format_03d_inj)

lemma length_decimal_pos: "0 < length (decimal n)"
  by (subst decimal.simps) simp

lemma length_decimal_le3: "length (decimal n) \<le> 3 \<longleftrightarrow> n < 1000"
proof -
  have step: "length (decimal m) = (if m < 10 then 1 else Suc (length (decimal (m div 10))))"
    for m by (subst decimal.simps) simp
  show ?thesis
    apply (subst step [of n])
    apply (subst step [of "n div 10"])
    apply (subst step [of "n div 10 div 10"])
    using length_decimal_pos [of "n div 10 div 10 div 10"]
    by (auto simp: div_less_iff_less_mult)
qed

lemma length_format_03d: "length (format_03d n) = max 3 (length (decimal n))"
  by (simp add: format_03d_def)

lemma length_format_03d_small: "n < 1000 \<Longrightarrow> length (format_03d n) = 3"
  using length_decimal_le3 [of n] by (simp add: length_format_03d)

subsection \<open>Reading a member back\<close>

lemma find_last_member:
  "distinct (map filename zf) \<Longrightarrow> i < length zf \<Longrightarrow>
     find (\<lambda>m. filename m = filename (zf ! i)) (rev zf) = Some (zf ! i)"
proof (induction zf rule: rev_induct)
  case Nil
  then show ?case by simp
next
  case (snoc m zf)
  show ?case
  proof (cases "i < length zf")
    case True
    with snoc.prems have "filename m \<noteq> filename (zf ! i)" by auto
    with snoc True show ?thesis by (simp add: nth_append)
  next
    case False
    with snoc.prems have "i = length zf" by simp
    then show ?thesis by simp
  qed
qed

lemma zip_read_member:
  "distinct (namelist zf) \<Longrightarrow> i < length zf \<Longrightarrow>
     zip_read zf (filename (zf ! i)) = Some (data (zf ! i))"
  by (simp add: zip_read_def namelist_def find_last_member)

subsection \<open>The packaging loop\<close>

lemma zip_loop_Inr:
  "zip_loop E nm xs (l, zf) w = (Inr (l', zf'), w') \<Longrightarrow>
     \<exists>bs. l' = l @ bs \<and> length bs = length xs \<and>
       (\<forall>k<length xs. save_png E (snd (xs ! k)) = Inr (bs ! k)) \<and>
       zf' = zf @ map (\<lambda>k. \<lparr>filename = nm (fst (xs ! k)),
                              date_time = localtime E (clock_reads w + k),
                              data = bs ! k\<rparr>) [0..<length xs] \<and>
       w' = w\<lparr>clock_reads := clock_reads w + length xs\<rparr>"
proof (induction xs arbitrary: l zf w)
  case Nil
  then show ?case by simp
next
  case (Cons x xs)
  obtain i img where x: "x = (i, img)" by (cases x)
  from Cons.prems x obtain b where b: "save_png E img = Inr b"
    and rec: "zip_loop E nm xs (l @ [b], writestr zf (localtime E (clock_reads w)) (nm i) b)
                (w\<lparr>clock_reads := Suc (clock_reads w)\<rparr>) = (Inr (l', zf'), w')"
    by (auto split: sum.splits)
  from Cons.IH [OF rec] obtain bs where
    l': "l' = (l @ [b]) @ bs" and len: "length bs = length xs" and
    sv: "\<forall>k<length xs. save_png E (snd (xs ! k)) = Inr (bs ! k)" and
    zf': "zf' = writestr zf (localtime E (clock_reads w)) (nm i) b @
            map (\<lambda>k. \<lparr>filename = nm (fst (xs ! k)),
                       date_time = localtime E (Suc (clock_reads w) + k),
                       data = bs ! k\<rparr>) [0..<length xs]" and
    w': "w' = w\<lparr>clock_reads := Suc (clock_reads w) + length xs\<rparr>"
    by auto
  let ?bs = "b # bs"
  have 1: "l' = l @ ?bs" using l' by simp
  have 2: "length ?bs = length (x # xs)" using len by simp
  have 3: "\<forall>k<length (x # xs). save_png E (snd ((x # xs) ! k)) = Inr (?bs ! k)"
    using sv b x by (auto simp: nth_Cons split: nat.splits)
  have 4: "zf' = zf @ map (\<lambda>k. \<lparr>filename = nm (fst ((x # xs) ! k)),
                              date_time = localtime E (clock_reads w + k),
                              data = ?bs ! k\<rparr>) [0..<length (x # xs)]"
    using zf' x by (simp add: writestr_def map_upt_Suc del: upt_Suc)
  have 5: "w' = w\<lparr>clock_reads := clock_reads w + length (x # xs)\<rparr>"
    using w' by simp
  from 1 2 3 4 5 show ?case by blast
qed

lemma zip_loop_Inl:
  "zip_loop E nm xs acc w = (Inl e, w') \<Longrightarrow>
     \<exists>k<length xs. save_png E (snd (xs ! k)) = Inl e"
proof (induction xs arbitrary: acc w)
  case Nil
  then show ?case by simp
next
  case (Cons x xs)
  obtain i img where x: "x = (i, img)" by (cases x)
  obtain l zf where acc: "acc = (l, zf)" by (cases acc)
  show ?case
  proof (cases "save_png E img")
    case (Inl e')
    with Cons.prems x acc have "e' = e" by simp
    with Inl x show ?thesis by auto
  next
    case (Inr b)
    with Cons.prems x acc obtain acc' w1 where "zip_loop E nm xs acc' w1 = (Inl e, w')"
      by auto
    from Cons.IH [OF this] obtain k where "k < length xs" "save_png E (snd (xs ! k)) = Inl e"
      by auto
    then have "Suc k < length (x # xs)" "save_png E (snd ((x # xs) ! Suc k)) = Inl e"
      by auto
    then show ?thesis by blast
  qed
qed


lemma zip_loop_succeeds:
  "(\<And>x. x \<in> set xs \<Longrightarrow> \<exists>b. save_png E (snd x) = Inr b) \<Longrightarrow>
     \<exists>r w'. zip_loop E nm xs acc w = (Inr r, w')"
proof (induction xs arbitrary: acc w)
  case Nil
  then show ?case by simp
next
  case (Cons x xs)
  obtain i img where x: "x = (i, img)" by (cases x)
  obtain l zf where acc: "acc = (l, zf)" by (cases acc)
  from Cons.prems [of x] x obtain b where b: "save_png E img = Inr b" by auto
  have "\<exists>b. save_png E (snd y) = Inr b" if "y \<in> set xs" for y
    using Cons.prems [of y] that by simp
  from Cons.IH [OF this] show ?case using x acc b by simp
qed

subsection \<open>The body of the conversion\<close>

lemma conversion_try_Inr:
  assumes "conversion_try E nm pdf d w = (Inr (l, zf), w')"
  shows "\<exists>images. convert_from_bytes E pdf d = Inr images \<and>
           length l = length images \<and>
           (\<forall>k<length images. save_png E (images ! k) = Inr (l ! k)) \<and>
           zf = map (\<lambda>k. \<lparr>filename = nm k,
                            date_time = localtime E (clock_reads w + k),
                            data = l ! k\<rparr>) [0..<length images] \<and>
           w' = \<lparr>renders = Suc (renders w), clock_reads = clock_reads w + length images\<rparr>"
proof -
  from assms obtain images where conv: "convert_from_bytes E pdf d = Inr images"
    and loop: "zip_loop E nm (enumerate 0 images) ([], []) (w\<lparr>renders := Suc (renders w)\<rparr>)
                 = (Inr (l, zf), w')"
    by (auto simp: conversion_try_def Let_def split: sum.splits)
  from zip_loop_Inr [OF loop] obtain bs where
    "l = [] @ bs" "length bs = length (enumerate 0 images)"
    "\<forall>k<length (enumerate 0 images). save_png E (snd (enumerate 0 images ! k)) = Inr (bs ! k)"
    "zf = [] @ map (\<lambda>k. \<lparr>filename = nm (fst (enumerate 0 images ! k)),
              date_time = localtime E (clock_reads (w\<lparr>renders := Suc (renders w)\<rparr>) + k),
              data = bs ! k\<rparr>) [0..<length (enumerate 0 images)]"
    "w' = (w\<lparr>renders := Suc (renders w)\<rparr>)\<lparr>clock_reads :=
              clock_reads (w\<lparr>renders := Suc (renders w)\<rparr>) + length (enumerate 0 images)\<rparr>"
    by blast
  then have "length l = length images"
    "\<forall>k<length images. save_png E (images ! k) = Inr (l ! k)"
    "zf = map (\<lambda>k. \<lparr>filename = nm k, date_time = localtime E (clock_reads w + k),
                     data = l ! k\<rparr>) [0..<length images]"
    "w' = \<lparr>renders = Suc (renders w), clock_reads = clock_reads w + length images\<rparr>"
    by (simp_all add: nth_enumerate_eq)
  with conv show ?thesis by blast
qed

lemma conversion_body_cases:
  "(\<exists>l zf w'. conversion_body E pdf d w = ((Some l, ZipData zf), w') \<and>
       conversion_try E page_name pdf d w = (Inr (l, zf), w')) \<or>
   (\<exists>e w'. conversion_body E pdf d w = ((None, ErrorText (str_exn e)), w') \<and>
       conversion_try E page_name pdf d w = (Inl e, w'))"
proof (cases "conversion_try E page_name pdf d w")
  case (Pair r w')
  then show ?thesis
    by (cases r) (auto simp: conversion_body_def)
qed

lemma conversion_body_Some:
  assumes "fst (conversion_body E pdf d w) = (Some l, p)"
  shows "\<exists>zf w'. p = ZipData zf \<and> conversion_try E page_name pdf d w = (Inr (l, zf), w')"
  using conversion_body_cases [of E pdf d w] assms by auto



lemma conversion_try_succeeds:
  assumes "convert_from_bytes E pdf d = Inr images"
    "\<And>img. img \<in> set images \<Longrightarrow> \<exists>b. save_png E img = Inr b"
  shows "\<exists>l zf w'. conversion_try E nm pdf d w = (Inr (l, zf), w')"
proof -
  have "\<exists>b. save_png E (snd x) = Inr b" if "x \<in> set (enumerate 0 images)" for x
  proof -
    from that have "fst x < length images" "images ! fst x = snd x"
      by (simp_all add: in_set_enumerate_eq)
    then have "snd x \<in> set images" by (metis nth_mem)
    then show ?thesis by (rule assms(2))
  qed
  from zip_loop_succeeds [OF this, of "enumerate 0 images" nm "([], [])"
      "w\<lparr>renders := Suc (renders w)\<rparr>"]
  show ?thesis using assms(1) by (auto simp: conversion_try_def)
qed

lemma archive_names:
  assumes "conversion_try E nm pdf d w = (Inr (l, zf), w')"
  shows "namelist zf = map nm [0..<length l]" "length zf = length l"
    "\<And>i. i < length l \<Longrightarrow> filename (zf ! i) = nm i \<and> data (zf ! i) = l ! i"
  using conversion_try_Inr [OF assms] by (auto simp: namelist_def)

lemma archive_holds_try:
  assumes "conversion_try E nm pdf d w = (Inr (l, zf), w')" and inj: "inj nm"
  shows "archive_holds nm zf l"
proof -
  note nms = archive_names [OF assms(1)]
  have "distinct (namelist zf)"
    unfolding nms(1) using inj by (simp add: distinct_map inj_on_def inj_def)
  then have "zip_read zf (nm i) = Some (l ! i)" if "i < length l" for i
    using zip_read_member [of zf i] nms(2) nms(3) [OF that] that by simp
  with nms show ?thesis by (simp add: archive_holds_def)
qed

lemma inj_page_name: "inj page_name"
  by (rule injI) (rule page_name_inj)

lemma inj_named_page_name: "inj (named_page_name p)"
  by (rule injI) (rule named_page_name_inj)

lemma page_name_1000: "page_name 999 = ''page_1000.png''"
  by code_simp

lemma length_format_03d_1000: "length (format_03d 1000) = 4"
  by code_simp

subsection \<open>Complete or failed, never partial\<close>

text \<open>
  C2. When the renderer returns the N pages of the document, the conversion returns
  either a failure pair or the complete result, never a part of the pages: N PNG byte
  strings, the i-th being the encoding of the i-th page of the document, and an archive
  of N members in which the member at position i carries the ordinal i in its name,
  \<^verbatim>\<open>page_\<close>, the decimal numeral of i padded with zeros, \<^verbatim>\<open>.png\<close>, for the ordinals 1 to N
  in page order, with the bytes of that page as its data. When every page can be
  encoded, it is the complete result that is returned.
\<close>

theorem conversion_complete_or_failure:
  assumes "convert_from_bytes E pdf d = Inr images"
  shows "((\<forall>img\<in>set images. \<exists>b. save_png E img = Inr b) \<longrightarrow>
            (\<exists>l zf. fst (conversion_body E pdf d w) = (Some l, ZipData zf))) \<and>
         ((\<exists>t. fst (conversion_body E pdf d w) = (None, ErrorText t)) \<or>
          (\<exists>l zf. fst (conversion_body E pdf d w) = (Some l, ZipData zf) \<and>
             length l = length images \<and>
             (\<forall>i<length images. save_png E (images ! i) = Inr (l ! i)) \<and>
             namelist zf = map page_name [0..<length images] \<and>
             length zf = length images \<and>
             (\<forall>i<length images.
                filename (zf ! i) = ''page_'' @ format_03d (i + 1) @ ''.png'' \<and>
                digits_value (format_03d (i + 1)) = i + 1 \<and>
                data (zf ! i) = l ! i)))"
proof (intro conjI impI)
  assume "\<forall>img\<in>set images. \<exists>b. save_png E img = Inr b"
  then have "\<exists>l zf w'. conversion_try E page_name pdf d w = (Inr (l, zf), w')"
    using conversion_try_succeeds [OF assms] by blast
  then show "\<exists>l zf. fst (conversion_body E pdf d w) = (Some l, ZipData zf)"
    by (auto simp: conversion_body_def)
next
  from conversion_body_cases [of E pdf d w]
  show "(\<exists>t. fst (conversion_body E pdf d w) = (None, ErrorText t)) \<or>
        (\<exists>l zf. fst (conversion_body E pdf d w) = (Some l, ZipData zf) \<and>
           length l = length images \<and>
           (\<forall>i<length images. save_png E (images ! i) = Inr (l ! i)) \<and>
           namelist zf = map page_name [0..<length images] \<and>
           length zf = length images \<and>
           (\<forall>i<length images.
              filename (zf ! i) = ''page_'' @ format_03d (i + 1) @ ''.png'' \<and>
              digits_value (format_03d (i + 1)) = i + 1 \<and>
              data (zf ! i) = l ! i))"
  proof (elim disjE exE conjE)
    fix l zf w'
    assume body: "conversion_body E pdf d w = ((Some l, ZipData zf), w')"
      and tr: "conversion_try E page_name pdf d w = (Inr (l, zf), w')"
    from conversion_try_Inr [OF tr] assms
    have len: "length l = length images"
      and enc: "\<forall>i<length images. save_png E (images ! i) = Inr (l ! i)" by auto
    from archive_names(1) [OF tr] len
    have names: "namelist zf = map page_name [0..<length images]" by simp
    from archive_names(2) [OF tr] len have lenz: "length zf = length images" by simp
    have members: "\<forall>i<length images.
        filename (zf ! i) = ''page_'' @ format_03d (i + 1) @ ''.png'' \<and>
        digits_value (format_03d (i + 1)) = i + 1 \<and> data (zf ! i) = l ! i"
    proof (intro allI impI)
      fix i assume "i < length images"
      with len have "i < length l" by simp
      from archive_names(3) [OF tr this]
      show "filename (zf ! i) = ''page_'' @ format_03d (i + 1) @ ''.png'' \<and>
            digits_value (format_03d (i + 1)) = i + 1 \<and> data (zf ! i) = l ! i"
        by (simp add: page_name_def digits_value_format_03d)
    qed
    from body len enc names lenz members show ?thesis by simp
  next
    fix e w'
    assume "conversion_body E pdf d w = ((None, ErrorText (str_exn e)), w')"
    then show ?thesis by simp
  qed
qed

theorem conversion_complete_or_failure_witness:
  "convert_from_bytes
     \<lparr>convert_from_bytes = (\<lambda>b r. Inr [1, 2, 3 :: nat]),
      save_png = (\<lambda>n. Inr [of_nat n]), localtime = (\<lambda>k. (2025, 1, 1, 0, 0, k))\<rparr>
     [37, 80, 68, 70] 300 = Inr [1, 2, 3] \<and>
   fst (conversion_body
     \<lparr>convert_from_bytes = (\<lambda>b r. Inr [1, 2, 3 :: nat]),
      save_png = (\<lambda>n. Inr [of_nat n]), localtime = (\<lambda>k. (2025, 1, 1, 0, 0, k))\<rparr>
     [37, 80, 68, 70] 300 \<lparr>renders = 0, clock_reads = 0\<rparr>)
   = (Some [[1], [2], [3]],
      ZipData [\<lparr>filename = ''page_001.png'', date_time = (2025, 1, 1, 0, 0, 0), data = [1]\<rparr>,
               \<lparr>filename = ''page_002.png'', date_time = (2025, 1, 1, 0, 0, 1), data = [2]\<rparr>,
               \<lparr>filename = ''page_003.png'', date_time = (2025, 1, 1, 0, 0, 2), data = [3]\<rparr>]) \<and>
   (\<exists>l zf. fst (conversion_body
       \<lparr>convert_from_bytes = (\<lambda>b r. Inr [1, 2, 3 :: nat]),
        save_png = (\<lambda>n. Inr [of_nat n]), localtime = (\<lambda>k. (2025, 1, 1, 0, 0, k))\<rparr>
       [37, 80, 68, 70] 300 \<lparr>renders = 0, clock_reads = 0\<rparr>) = (Some l, ZipData zf) \<and>
      l = [[1], [2], [3]] \<and>
      namelist zf = [''page_001.png'', ''page_002.png'', ''page_003.png''] \<and>
      filename (zf ! 0) = ''page_'' @ format_03d 1 @ ''.png'' \<and>
      filename (zf ! 1) = ''page_'' @ format_03d 2 @ ''.png'' \<and>
      filename (zf ! 2) = ''page_'' @ format_03d 3 @ ''.png'' \<and>
      format_03d 1 = ''001'' \<and> format_03d 2 = ''002'' \<and> format_03d 3 = ''003'' \<and>
      digits_value (format_03d 1) = 1 \<and> digits_value (format_03d 2) = 2 \<and>
      digits_value (format_03d 3) = 3)"
proof -
  let ?E = "\<lparr>convert_from_bytes = (\<lambda>b r. Inr [1, 2, 3 :: nat]),
      save_png = (\<lambda>n. Inr [of_nat n]), localtime = (\<lambda>k. (2025, 1, 1, 0, 0, k))\<rparr>"
  let ?w = "\<lparr>renders = 0, clock_reads = 0\<rparr>"
  let ?zf = "[\<lparr>filename = ''page_001.png'', date_time = (2025, 1, 1, 0, 0, 0), data = [1]\<rparr>,
      \<lparr>filename = ''page_002.png'', date_time = (2025, 1, 1, 0, 0, 1), data = [2]\<rparr>,
      \<lparr>filename = ''page_003.png'', date_time = (2025, 1, 1, 0, 0, 2), data = [3 :: 8 word]\<rparr>]"
  have conv: "convert_from_bytes ?E [37, 80, 68, 70] 300 = Inr [1, 2, 3]" by simp
  have enc: "\<forall>img\<in>set [1, 2, 3 :: nat]. \<exists>b. save_png ?E img = Inr b" by simp
  have names: "page_name 0 = ''page_001.png''" "page_name 1 = ''page_002.png''"
    "page_name 2 = ''page_003.png''" by code_simp+
  have digits: "format_03d 1 = ''001''" "format_03d 2 = ''002''" "format_03d 3 = ''003''"
    by code_simp+
  have run: "fst (conversion_body ?E [37, 80, 68, 70] 300 ?w) = (Some [[1], [2], [3]], ZipData ?zf)"
    using names
    by (simp add: conversion_body_def conversion_try_def enumerate_eq_zip writestr_def
        upt_rec numeral_eq_Suc)
  from conversion_complete_or_failure [OF conv, of ?w] enc
  obtain l zf where res: "fst (conversion_body ?E [37, 80, 68, 70] 300 ?w) = (Some l, ZipData zf)"
    by blast
  from conversion_complete_or_failure [OF conv, of ?w] res
  have nl: "namelist zf = map page_name [0..<length [1, 2, 3 :: nat]]"
    and mem: "\<forall>i<length [1, 2, 3 :: nat].
        filename (zf ! i) = ''page_'' @ format_03d (i + 1) @ ''.png'' \<and>
        digits_value (format_03d (i + 1)) = i + 1 \<and> data (zf ! i) = l ! i"
    by auto
  from res run have l: "l = [[1], [2], [3]]" by simp
  from nl names have nl': "namelist zf = [''page_001.png'', ''page_002.png'', ''page_003.png'']"
    by (simp add: upt_rec numeral_eq_Suc)
  have i0: "(0::nat) < length [1, 2, 3 :: nat]" and i1: "(1::nat) < length [1, 2, 3 :: nat]"
    and i2: "(2::nat) < length [1, 2, 3 :: nat]" by simp_all
  have three: "(2::nat) + 1 = 3" by simp
  from mem i0 have "filename (zf ! 0) = ''page_'' @ format_03d (0 + 1) @ ''.png'' \<and>
      digits_value (format_03d (0 + 1)) = 0 + 1" by blast
  then have m0: "filename (zf ! 0) = ''page_'' @ format_03d 1 @ ''.png''"
      "digits_value (format_03d 1) = 1"
    by (simp_all only: add_0)
  from mem i1 have "filename (zf ! 1) = ''page_'' @ format_03d (1 + 1) @ ''.png'' \<and>
      digits_value (format_03d (1 + 1)) = 1 + 1" by blast
  then have m1: "filename (zf ! 1) = ''page_'' @ format_03d 2 @ ''.png''"
      "digits_value (format_03d 2) = 2"
    by (simp_all only: one_add_one)
  from mem i2 have "filename (zf ! 2) = ''page_'' @ format_03d (2 + 1) @ ''.png'' \<and>
      digits_value (format_03d (2 + 1)) = 2 + 1" by blast
  then have m2: "filename (zf ! 2) = ''page_'' @ format_03d 3 @ ''.png''"
      "digits_value (format_03d 3) = 3"
    by (simp_all only: three)
  from conv run res l nl' m0 m1 m2 digits show ?thesis by blast
qed

subsection \<open>The archive of a successful conversion\<close>

text \<open>
  C3, as amended. For every successful conversion of an N-page document the archive
  has exactly N members; the i-th is named \<^verbatim>\<open>page_\<close>, the ordinal i in decimal
  padded with zeros to at least 3 digits (exactly 3 up to page 999, the plain numeral
  from page 1000 on), \<^verbatim>\<open>.png\<close>; its data, and what reading that name gives, are the
  PNG bytes of the i-th page. The same holds in app.py with the document's name in
  front of \<^verbatim>\<open>_page_\<close>.
\<close>

theorem archive_members_roundtrip:
  "(fst (conversion_body E pdf d w) = (Some l, p) \<longrightarrow>
      (\<exists>zf. p = ZipData zf \<and> archive_holds page_name zf l)) \<and>
   (fst (app_script E cfg (Some f) w) = Inr (ConversionShown zf' zn pages) \<longrightarrow>
      archive_holds (named_page_name (splitext_root (name f))) zf' (map snd pages)) \<and>
   page_name i = ''page_'' @ format_03d (i + 1) @ ''.png'' \<and>
   named_page_name fn i = fn @ ''_page_'' @ format_03d (i + 1) @ ''.png'' \<and>
   digits_value (format_03d (i + 1)) = i + 1 \<and>
   length (format_03d (i + 1)) = max 3 (length (decimal (i + 1))) \<and>
   (i + 1 < 1000 \<longrightarrow> length (format_03d (i + 1)) = 3) \<and>
   (1000 \<le> i + 1 \<longrightarrow> format_03d (i + 1) = decimal (i + 1) \<and> 3 < length (decimal (i + 1)))"
proof (intro conjI impI)
  assume "fst (conversion_body E pdf d w) = (Some l, p)"
  from conversion_body_Some [OF this] obtain zf w' where
    "p = ZipData zf" "conversion_try E page_name pdf d w = (Inr (l, zf), w')" by blast
  with archive_holds_try [OF _ inj_page_name]
  show "\<exists>zf. p = ZipData zf \<and> archive_holds page_name zf l" by blast
next
  assume app: "fst (app_script E cfg (Some f) w) = Inr (ConversionShown zf' zn pages)"
  let ?nm = "named_page_name (splitext_root (name f))"
  from app obtain D where D: "configured_dpi cfg = Inr D"
    by (auto simp: app_script_def split: sum.splits)
  obtain r w' where r: "conversion_try E ?nm (getvalue f) D w = (r, w')"
    by (cases "conversion_try E ?nm (getvalue f) D w")
  from app D r obtain l where tr: "conversion_try E ?nm (getvalue f) D w = (Inr (l, zf'), w')"
    and pages: "pages = map (\<lambda>(i, img_bytes). (?nm i, img_bytes)) (enumerate 0 l)"
    by (cases r) (auto simp: app_script_def Let_def)
  have "map snd pages = l"
    unfolding pages by (simp add: enumerate_eq_zip comp_def case_prod_beta)
  with archive_holds_try [OF tr inj_named_page_name]
  show "archive_holds ?nm zf' (map snd pages)" by simp
next
  assume "1000 \<le> i + 1"
  then have "\<not> length (decimal (i + 1)) \<le> 3" using length_decimal_le3 [of "i + 1"] by simp
  then show "format_03d (i + 1) = decimal (i + 1)" "3 < length (decimal (i + 1))"
    by (simp_all add: format_03d_def)
next
  assume "i + 1 < 1000"
  then show "length (format_03d (i + 1)) = 3" by (rule length_format_03d_small)
qed (simp_all add: page_name_def named_page_name_def digits_value_format_03d
      length_format_03d)

theorem archive_members_roundtrip_witness:
  "fst (conversion_body
     \<lparr>convert_from_bytes = (\<lambda>b r. Inr [1, 2, 3 :: nat]),
      save_png = (\<lambda>n. Inr [of_nat n]), localtime = (\<lambda>k. (2025, 1, 1, 0, 0, k))\<rparr>
     [37, 80, 68, 70] 300 \<lparr>renders = 0, clock_reads = 0\<rparr>)
   = (Some [[1], [2], [3]],
      ZipData [\<lparr>filename = ''page_001.png'', date_time = (2025, 1, 1, 0, 0, 0), data = [1]\<rparr>,
               \<lparr>filename = ''page_002.png'', date_time = (2025, 1, 1, 0, 0, 1), data = [2]\<rparr>,
               \<lparr>filename = ''page_003.png'', date_time = (2025, 1, 1, 0, 0, 2), data = [3]\<rparr>]) \<and>
   archive_holds page_name
     [\<lparr>filename = ''page_001.png'', date_time = (2025, 1, 1, 0, 0, 0), data = [1]\<rparr>,
      \<lparr>filename = ''page_002.png'', date_time = (2025, 1, 1, 0, 0, 1), data = [2]\<rparr>,
      \<lparr>filename = ''page_003.png'', date_time = (2025, 1, 1, 0, 0, 2), data = [3]\<rparr>]
     [[1], [2], [3]] \<and>
   length (format_03d (2 + 1)) = 3"
proof -
  let ?E = "\<lparr>convert_from_bytes = (\<lambda>b r. Inr [1, 2, 3 :: nat]),
      save_png = (\<lambda>n. Inr [of_nat n]), localtime = (\<lambda>k. (2025, 1, 1, 0, 0, k))\<rparr>"
  let ?zf = "[\<lparr>filename = ''page_001.png'', date_time = (2025, 1, 1, 0, 0, 0), data = [1]\<rparr>,
      \<lparr>filename = ''page_002.png'', date_time = (2025, 1, 1, 0, 0, 1), data = [2]\<rparr>,
      \<lparr>filename = ''page_003.png'', date_time = (2025, 1, 1, 0, 0, 2), data = [3 :: 8 word]\<rparr>]"
  have names: "page_name 0 = ''page_001.png''" "page_name 1 = ''page_002.png''"
    "page_name 2 = ''page_003.png''" by code_simp+
  have run: "fst (conversion_body ?E [37, 80, 68, 70] 300 \<lparr>renders = 0, clock_reads = 0\<rparr>)
      = (Some [[1], [2], [3]], ZipData ?zf)"
    using names
    by (simp add: conversion_body_def conversion_try_def enumerate_eq_zip writestr_def
        upt_rec numeral_eq_Suc)
  note inst = archive_members_roundtrip
    [where E = ?E and pdf = "[37, 80, 68, 70]" and d = 300
      and w = "\<lparr>renders = 0, clock_reads = 0\<rparr>" and l = "[[1], [2], [3]]"
      and p = "ZipData ?zf" and i = 2]
  from inst run have holds: "archive_holds page_name ?zf [[1], [2], [3]]" by blast
  have "(2::nat) + 1 < 1000" by simp
  with inst have width: "length (format_03d (2 + 1)) = 3" by blast
  from run holds width show ?thesis by blast
qed

theorem fixed_width_counterexample:
  "namelist (case snd (fst (conversion_body
       \<lparr>convert_from_bytes = (\<lambda>b r. Inr (replicate 1000 ())),
        save_png = (\<lambda>u. Inr []), localtime = (\<lambda>k. (2025, 1, 1, 0, 0, 0))\<rparr>
       [37, 80, 68, 70] 300 \<lparr>renders = 0, clock_reads = 0\<rparr>)) of
      ZipData zf \<Rightarrow> zf | ErrorText t \<Rightarrow> []) ! 999 = ''page_1000.png'' \<and>
   length (format_03d 1000) \<noteq> 3"
proof -
  let ?E = "\<lparr>convert_from_bytes = (\<lambda>b r. Inr (replicate 1000 ())),
        save_png = (\<lambda>u. Inr []), localtime = (\<lambda>k. (2025, 1, 1, 0, 0, 0))\<rparr>"
  let ?w = "\<lparr>renders = 0, clock_reads = 0\<rparr>"
  have conv: "convert_from_bytes ?E [37, 80, 68, 70] 300 = Inr (replicate 1000 ())" by simp
  have "\<exists>b. save_png ?E img = Inr b" for img by simp
  from conversion_try_succeeds [OF conv this, of page_name ?w]
  obtain l zf w' where tr: "conversion_try ?E page_name [37, 80, 68, 70] 300 ?w = (Inr (l, zf), w')"
    by blast
  from conversion_try_Inr [OF tr] conv have len: "length l = 1000" by simp
  from archive_names(1) [OF tr] len have "namelist zf ! 999 = page_name 999" by simp
  moreover from tr have "snd (fst (conversion_body ?E [37, 80, 68, 70] 300 ?w)) = ZipData zf"
    by (simp add: conversion_body_def)
  ultimately show ?thesis using page_name_1000 length_format_03d_1000 by simp
qed

subsection \<open>Errors of the renderer and the encoder\<close>




subsection \<open>The memoized function\<close>

lemma cache_store_lookup: "cache_lookup (cache_store c k v) k = Some v"
proof -
  let ?ys = "filter (\<lambda>(k', v'). k' \<noteq> k) c"
  let ?n = "length (?ys @ [(k, v)]) - max_entries"
  have n: "?n \<le> length ?ys" by (simp add: max_entries_def)
  have "k \<notin> fst ` set ?ys" by auto
  moreover have "set (drop ?n ?ys) \<subseteq> set ?ys" by (rule set_drop_subset)
  ultimately have "k \<notin> fst ` set (drop ?n ?ys)" by blast
  then have none: "map_of (drop ?n ?ys) k = None" by (simp add: map_of_eq_None_iff)
  have "cache_store c k v = drop ?n ?ys @ [(k, v)]"
    using n by (simp add: cache_store_def Let_def)
  with none show ?thesis by (simp add: cache_lookup_def map_add_def)
qed

lemma length_cache_store: "length (cache_store c k v) \<le> max_entries"
  by (simp add: cache_store_def Let_def max_entries_def)

lemma cache_store_keys:
  assumes "k \<notin> fst ` set c"
  shows "map fst (cache_store c k v) = drop (Suc (length c) - max_entries) (map fst c @ [k])"
proof -
  from assms have "filter (\<lambda>(k', v'). k' \<noteq> k) c = c"
    by (force simp: filter_id_conv)
  then have "cache_store c k v = drop (Suc (length c) - max_entries) (c @ [(k, v)])"
    by (simp add: cache_store_def Let_def)
  also have "map fst \<dots> = drop (Suc (length c) - max_entries) (map fst (c @ [(k, v)]))"
    by (rule drop_map [symmetric])
  finally show ?thesis by simp
qed

lemma perform_conversion_hit:
  "cache_lookup c (pdf, d) = Some r \<Longrightarrow> perform_conversion E pdf d (c, w) = (r, c, w)"
  by (simp add: perform_conversion_def)

lemma perform_conversion_miss:
  "cache_lookup c (pdf, d) = None \<Longrightarrow>
     perform_conversion E pdf d (c, w) =
       (fst (conversion_body E pdf d w),
        cache_store c (pdf, d) (fst (conversion_body E pdf d w)),
        snd (conversion_body E pdf d w))"
  by (simp add: perform_conversion_def split: prod.splits)

lemma perform_conversion_stored:
  assumes "perform_conversion E pdf d (c, w) = (r, c', w')"
  shows "cache_lookup c' (pdf, d) = Some r"
proof (cases "cache_lookup c (pdf, d)")
  case None
  from assms show ?thesis
    unfolding perform_conversion_miss [OF None] by (auto simp: cache_store_lookup)
next
  case (Some r')
  from assms show ?thesis
    unfolding perform_conversion_hit [OF Some] using Some by simp
qed

lemma zip_loop_renders: "renders (snd (zip_loop E nm xs acc w)) = renders w"
proof (induction xs arbitrary: acc w)
  case Nil
  then show ?case by simp
next
  case (Cons x xs)
  obtain i img where x: "x = (i, img)" by (cases x)
  obtain l zf where acc: "acc = (l, zf)" by (cases acc)
  show ?case using x acc Cons.IH by (simp split: sum.splits)
qed

lemma conversion_body_renders: "renders (snd (conversion_body E pdf d w)) = Suc (renders w)"
proof -
  have "renders (snd (conversion_try E page_name pdf d w)) = Suc (renders w)"
    by (simp add: conversion_try_def Let_def zip_loop_renders split: sum.splits)
  then show ?thesis
    by (cases "conversion_try E page_name pdf d w")
      (auto simp: conversion_body_def split: sum.splits)
qed

lemma perform_conversion_renders:
  assumes "perform_conversion E pdf d (c, w) = (r, c', w')"
  shows "renders w' \<le> Suc (renders w)"
proof (cases "cache_lookup c (pdf, d)")
  case None
  from assms show ?thesis
    unfolding perform_conversion_miss [OF None] using conversion_body_renders [of E pdf d w]
    by auto
next
  case (Some r')
  from assms show ?thesis unfolding perform_conversion_hit [OF Some] by simp
qed

lemma perform_conversion_twice:
  assumes "perform_conversion E pdf d (c, w) = (r, c', w')"
  shows "perform_conversion E pdf d (c', w') = (r, c', w')"
  using perform_conversion_stored [OF assms] by (rule perform_conversion_hit)

subsection \<open>The guard of app2.py\<close>

lemma conversion_needed_after_store:
  "last_file_id ss = Some fid \<Longrightarrow> last_dpi ss = Some d \<Longrightarrow> conversion_needed ss fid d = Inr False"
  by (simp add: conversion_needed_def attribute_def)

lemma app2_convert_again:
  assumes "app2_convert E f d s = (out, s')"
  shows "snd (snd (app2_convert E f d s')) = snd s' \<and>
         renders (snd (snd s')) \<le> Suc (renders (snd (snd s)))"
proof -
  obtain ss c w where s: "s = (ss, c, w)" by (cases s)
  show ?thesis
  proof (cases "conversion_needed ss (file_id f) d")
    case (Inl e)
    with assms s show ?thesis by (auto simp: app2_convert_def)
  next
    case (Inr b)
    show ?thesis
    proof (cases b)
      case False
      with Inr assms s show ?thesis by (auto simp: app2_convert_def)
    next
      case True
      obtain r c' w' where pc: "perform_conversion E (getvalue f) d (c, w) = (r, c', w')"
        by (cases "perform_conversion E (getvalue f) d (c, w)")
      note again = perform_conversion_twice [OF pc]
      note bound = perform_conversion_renders [OF pc]
      show ?thesis
      proof (cases "fst r")
        case None
        with assms s Inr True pc have s': "s' = (session_clear, c', w')"
          by (auto simp: app2_convert_def Let_def)
        have "conversion_needed session_clear (file_id f) d = Inr True"
          by (simp add: conversion_needed_def session_clear_def)
        with again s' bound s show ?thesis
          by (auto simp: app2_convert_def Let_def split: option.splits)
      next
        case (Some l)
        let ?ss1 = "ss\<lparr>image_bytes_list := Some (fst r), zip_data := Some (snd r),
            last_file_id := Some (file_id f), last_dpi := Some d,
            pdf_filename := Some (splitext_root (name f))\<rparr>"
        from assms s Inr True pc Some have s': "s' = (?ss1, c', w')"
          by (auto simp: app2_convert_def Let_def)
        have "conversion_needed ?ss1 (file_id f) d = Inr False"
          by (rule conversion_needed_after_store) simp_all
        with s' bound s show ?thesis by (simp add: app2_convert_def)
      qed
    qed
  qed
qed

lemma app2_script_state:
  "snd (snd (app2_script E (Some f) d s)) = snd (snd (app2_convert E f d s))"
proof -
  obtain out ss c w where "app2_convert E f d s = (out, ss, c, w)"
    by (cases "app2_convert E f d s") auto
  then show ?thesis
    by (cases out) (auto simp: app2_script_def split: sum.splits)
qed

text \<open>
  C4. Two calls of the memoized conversion with the same document bytes and the same
  resolution, nothing in between: the second returns what the first returned and leaves
  the cache and the world as they were, so it neither invokes the renderer nor writes
  an archive; the two calls together invoke the renderer at most once. The same for
  two runs of app2.py with the same uploaded file and resolution, where the guard on
  the session state or else the cache keeps the second run from rendering.
\<close>

theorem second_call_is_cache_hit:
  "(perform_conversion E pdf d (c, w) = (r, c', w') \<longrightarrow>
      perform_conversion E pdf d (c', w') = (r, c', w') \<and>
      renders w' \<le> Suc (renders w)) \<and>
   (app2_script E (Some f) d s = (out, s') \<longrightarrow>
      snd (snd (app2_script E (Some f) d s')) = snd s' \<and>
      renders (snd (snd s')) \<le> Suc (renders (snd (snd s))))"
proof (intro conjI impI)
  assume pc: "perform_conversion E pdf d (c, w) = (r, c', w')"
  show "perform_conversion E pdf d (c', w') = (r, c', w')"
    by (rule perform_conversion_twice [OF pc])
  show "renders w' \<le> Suc (renders w)"
    by (rule perform_conversion_renders [OF pc])
next
  assume run: "app2_script E (Some f) d s = (out, s')"
  obtain out0 s0 where conv: "app2_convert E f d s = (out0, s0)"
    by (cases "app2_convert E f d s")
  from app2_script_state [of E f d s] run conv have "snd s' = snd s0" by simp
  moreover obtain out1 s1 where conv1: "app2_convert E f d s' = (out1, s1)"
    by (cases "app2_convert E f d s'")
  have s'eq: "s' = s0"
  proof -
    obtain ss0 c0 w0 where "s0 = (ss0, c0, w0)" by (cases s0)
    with run conv show ?thesis
      by (cases out0) (auto simp: app2_script_def split: sum.splits)
  qed
  from app2_convert_again [OF conv] s'eq
  have "snd (snd (app2_convert E f d s')) = snd s'"
    "renders (snd (snd s')) \<le> Suc (renders (snd (snd s)))" by simp_all
  then show "snd (snd (app2_script E (Some f) d s')) = snd s'"
    "renders (snd (snd s')) \<le> Suc (renders (snd (snd s)))"
    by (simp_all add: app2_script_state)
qed

theorem second_call_is_cache_hit_witness:
  "perform_conversion
     \<lparr>convert_from_bytes = (\<lambda>b r. Inr [b]), save_png = (\<lambda>img. Inr img),
      localtime = (\<lambda>k. (2025, 1, 1, 0, 0, 2 * k))\<rparr>
     [1] 300 ([], \<lparr>renders = 0, clock_reads = 0\<rparr>)
   = ((Some [[1]], ZipData [\<lparr>filename = ''page_001.png'', date_time = (2025, 1, 1, 0, 0, 0),
                             data = [1]\<rparr>]),
      [(([1], 300), (Some [[1]], ZipData [\<lparr>filename = ''page_001.png'',
                             date_time = (2025, 1, 1, 0, 0, 0), data = [1]\<rparr>]))],
      \<lparr>renders = 1, clock_reads = 1\<rparr>) \<and>
   perform_conversion
     \<lparr>convert_from_bytes = (\<lambda>b r. Inr [b]), save_png = (\<lambda>img. Inr img),
      localtime = (\<lambda>k. (2025, 1, 1, 0, 0, 2 * k))\<rparr>
     [1] 300
     ([(([1], 300), (Some [[1]], ZipData [\<lparr>filename = ''page_001.png'',
                             date_time = (2025, 1, 1, 0, 0, 0), data = [1]\<rparr>]))],
      \<lparr>renders = 1, clock_reads = 1\<rparr>)
   = ((Some [[1]], ZipData [\<lparr>filename = ''page_001.png'', date_time = (2025, 1, 1, 0, 0, 0),
                             data = [1]\<rparr>]),
      [(([1], 300), (Some [[1]], ZipData [\<lparr>filename = ''page_001.png'',
                             date_time = (2025, 1, 1, 0, 0, 0), data = [1]\<rparr>]))],
      \<lparr>renders = 1, clock_reads = 1\<rparr>)"
proof -
  let ?E = "\<lparr>convert_from_bytes = (\<lambda>b r. Inr [b]), save_png = (\<lambda>img. Inr img),
      localtime = (\<lambda>k. (2025, 1, 1, 0, 0, 2 * k))\<rparr> :: bytes env"
  let ?r = "(Some [[1 :: 8 word]], ZipData [\<lparr>filename = ''page_001.png'',
      date_time = (2025, 1, 1, 0, 0, 0), data = [1]\<rparr>])"
  have name: "page_name 0 = ''page_001.png''" by code_simp
  have first: "perform_conversion ?E [1] 300 ([], \<lparr>renders = 0, clock_reads = 0\<rparr>)
      = (?r, [(([1], 300), ?r)], \<lparr>renders = 1, clock_reads = 1\<rparr>)"
    using name
    by (simp add: perform_conversion_def cache_lookup_def cache_store_def max_entries_def
        conversion_body_def conversion_try_def writestr_def)
  from second_call_is_cache_hit
    [where E = ?E and pdf = "[1]" and d = 300 and c = "[]"
      and w = "\<lparr>renders = 0, clock_reads = 0\<rparr>" and r = ?r
      and c' = "[(([1], 300), ?r)]" and w' = "\<lparr>renders = 1, clock_reads = 1\<rparr>"] first
  have "perform_conversion ?E [1] 300 ([(([1], 300), ?r)], \<lparr>renders = 1, clock_reads = 1\<rparr>)
      = (?r, [(([1], 300), ?r)], \<lparr>renders = 1, clock_reads = 1\<rparr>)"
    by blast
  with first show ?thesis by blast
qed

subsection \<open>Failures are stored like any other result\<close>

text \<open>
  C1, as amended. The \<^verbatim>\<open>except\<close> clause is inside the memoized function, so a failed
  conversion returns its pair \<^verbatim>\<open>(None, text)\<close> in the ordinary way and the pair is stored
  under the request's key. A later call with the identical request, while the entry is
  in the cache, returns the stored failure: the renderer is not invoked again.
\<close>

theorem failure_is_memoized:
  assumes "cache_lookup c (pdf, d) = None"
      and "fst (fst (conversion_body E pdf d w)) = None"
  shows "\<exists>t c' w'.
           perform_conversion E pdf d (c, w) = ((None, ErrorText t), c', w') \<and>
           cache_lookup c' (pdf, d) = Some (None, ErrorText t) \<and>
           perform_conversion E pdf d (c', w') = ((None, ErrorText t), c', w') \<and>
           renders w' = Suc (renders w)"
proof -
  from conversion_body_cases [of E pdf d w] assms(2)
  obtain e w' where body: "conversion_body E pdf d w = ((None, ErrorText (str_exn e)), w')"
    by auto
  let ?r = "(None, ErrorText (str_exn e))"
  from body have pc: "perform_conversion E pdf d (c, w) = (?r, cache_store c (pdf, d) ?r, w')"
    unfolding perform_conversion_miss [OF assms(1)] by simp
  from conversion_body_renders [of E pdf d w] body have "renders w' = Suc (renders w)"
    by simp
  with pc perform_conversion_stored [OF pc] perform_conversion_twice [OF pc]
  show ?thesis by blast
qed

theorem failure_is_memoized_witness:
  "cache_lookup [] ([], 300) = None \<and>
   fst (fst (conversion_body
     \<lparr>convert_from_bytes = (\<lambda>b r. Inl (LibraryError ''Unable to get page count.'')),
      save_png = (\<lambda>img. Inr img), localtime = (\<lambda>k. (2025, 1, 1, 0, 0, 2 * k))\<rparr>
     [] 300 \<lparr>renders = 0, clock_reads = 0\<rparr>)) = None \<and>
   (\<exists>t c' w'.
      perform_conversion
        \<lparr>convert_from_bytes = (\<lambda>b r. Inl (LibraryError ''Unable to get page count.'')),
         save_png = (\<lambda>img. Inr img), localtime = (\<lambda>k. (2025, 1, 1, 0, 0, 2 * k))\<rparr>
        [] 300 ([], \<lparr>renders = 0, clock_reads = 0\<rparr>) = ((None, ErrorText t), c', w') \<and>
      cache_lookup c' ([], 300) = Some (None, ErrorText t) \<and>
      renders w' = 1)"
proof -
  let ?E = "\<lparr>convert_from_bytes = (\<lambda>b r. Inl (LibraryError ''Unable to get page count.'')),
      save_png = (\<lambda>img. Inr img), localtime = (\<lambda>k. (2025, 1, 1, 0, 0, 2 * k))\<rparr> :: bytes env"
  have miss: "cache_lookup [] ([], 300) = None" by (simp add: cache_lookup_def)
  have fails: "fst (fst (conversion_body ?E [] 300 \<lparr>renders = 0, clock_reads = 0\<rparr>)) = None"
    by (simp add: conversion_body_def conversion_try_def)
  from failure_is_memoized [OF miss fails] miss fails show ?thesis by auto
qed

theorem failure_retry_counterexample:
  "perform_conversions
     \<lparr>convert_from_bytes = (\<lambda>b r. Inl (LibraryError ''Unable to get page count.'')),
      save_png = (\<lambda>img. Inr img), localtime = (\<lambda>k. (2025, 1, 1, 0, 0, 2 * k))\<rparr>
     [([], 300), ([], 300)] ([], \<lparr>renders = 0, clock_reads = 0\<rparr>)
   = ([(None, ErrorText ''Unable to get page count.''),
       (None, ErrorText ''Unable to get page count.'')],
      [(([], 300), (None, ErrorText ''Unable to get page count.''))],
      \<lparr>renders = 1, clock_reads = 0\<rparr>)"
  by (simp add: perform_conversion_def cache_lookup_def cache_store_def max_entries_def
      conversion_body_def conversion_try_def)

subsection \<open>Capacity and eviction\<close>

lemma perform_conversions_length:
  "length c \<le> max_entries \<Longrightarrow>
     length (fst (snd (perform_conversions E reqs (c, w)))) \<le> max_entries"
proof (induction reqs arbitrary: c w)
  case Nil
  then show ?case by simp
next
  case (Cons req reqs)
  obtain pdf d where req: "req = (pdf, d)" by (cases req)
  obtain r c' w' where pc: "perform_conversion E pdf d (c, w) = (r, c', w')"
    by (cases "perform_conversion E pdf d (c, w)")
  have "length c' \<le> max_entries"
  proof (cases "cache_lookup c (pdf, d)")
    case None
    from pc show ?thesis
      unfolding perform_conversion_miss [OF None] by (auto simp: length_cache_store)
  next
    case (Some r')
    from pc show ?thesis
      unfolding perform_conversion_hit [OF Some] using Cons.prems by simp
  qed
  from Cons.IH [OF this, of w'] req pc show ?case by (auto split: prod.splits)
qed

lemma drop_drop_append:
  assumes "m \<le> length xs"
  shows "drop a (drop m xs @ ys) = drop (m + a) (xs @ ys)"
proof -
  from assms have e: "drop m (xs @ ys) = drop m xs @ ys" by simp
  show ?thesis by (metis e drop_drop add.commute)
qed

lemma distinct_drop_append: "distinct (xs @ ys) \<Longrightarrow> distinct (drop m xs @ ys)"
  by (auto dest: in_set_dropD)

lemma perform_conversions_keys:
  "distinct (map fst c @ reqs) \<Longrightarrow> length c \<le> max_entries \<Longrightarrow>
     map fst (fst (snd (perform_conversions E reqs (c, w)))) =
       drop (length c + length reqs - max_entries) (map fst c @ reqs)"
proof (induction reqs arbitrary: c w)
  case Nil
  then show ?case by simp
next
  case (Cons req reqs)
  obtain pdf d where req: "req = (pdf, d)" by (cases req)
  from Cons.prems(1) have fresh: "req \<notin> fst ` set c" by auto
  then have miss: "cache_lookup c (pdf, d) = None"
    using req by (simp add: cache_lookup_def map_of_eq_None_iff)
  let ?r = "fst (conversion_body E pdf d w)"
  let ?w = "snd (conversion_body E pdf d w)"
  let ?c = "cache_store c (pdf, d) ?r"
  let ?m = "Suc (length c) - max_entries"
  have keys: "map fst ?c = drop ?m (map fst c @ [req])"
    using cache_store_keys [of req c ?r] fresh req by simp
  have len: "length ?c \<le> max_entries" by (rule length_cache_store)
  have "distinct ((map fst c @ [req]) @ reqs)" using Cons.prems(1) by simp
  then have dist: "distinct (map fst ?c @ reqs)"
    unfolding keys by (rule distinct_drop_append)
  have m: "?m \<le> length (map fst c @ [req])" by simp
  have lenc: "length ?c = Suc (length c) - ?m"
  proof -
    have "length (map fst ?c) = length (map fst c @ [req]) - ?m"
      unfolding keys by (rule length_drop)
    then show ?thesis by simp
  qed
  have "map fst (fst (snd (perform_conversions E (req # reqs) (c, w)))) =
        map fst (fst (snd (perform_conversions E reqs (?c, ?w))))"
    using req by (simp add: perform_conversion_miss [OF miss] split: prod.splits)
  also have "\<dots> = drop (length ?c + length reqs - max_entries) (map fst ?c @ reqs)"
    by (rule Cons.IH [OF dist len])
  also have "\<dots> = drop (?m + (length ?c + length reqs - max_entries))
      ((map fst c @ [req]) @ reqs)"
    unfolding keys by (rule drop_drop_append [OF m])
  also have "?m + (length ?c + length reqs - max_entries)
      = length c + length (req # reqs) - max_entries"
    using Cons.prems(2) unfolding lenc by (simp add: max_entries_def)
  finally show ?case by simp
qed

text \<open>
  C7. Starting from the empty cache, after any sequence of calls the cache holds at
  most 5 entries. After calls with distinct requests it holds the requests of the last
  5 calls, in call order: with more than 5 of them exactly 5 entries, and the requests
  are evicted in the order they were inserted, the earliest first.
\<close>

theorem cache_keeps_last_five:
  "max_entries = 5 \<and>
   length (fst (snd (perform_conversions E reqs ([], w)))) \<le> 5 \<and>
   (distinct reqs \<longrightarrow>
      map fst (fst (snd (perform_conversions E reqs ([], w)))) = drop (length reqs - 5) reqs \<and>
      (5 < length reqs \<longrightarrow>
         length (fst (snd (perform_conversions E reqs ([], w)))) = 5 \<and>
         hd reqs \<notin> fst ` set (fst (snd (perform_conversions E reqs ([], w))))))"
proof (intro conjI impI)
  show "max_entries = 5" by (simp add: max_entries_def)
  show "length (fst (snd (perform_conversions E reqs ([], w)))) \<le> 5"
    using perform_conversions_length [of "[]" E reqs w] by (simp add: max_entries_def)
next
  assume "distinct reqs"
  then show keys: "map fst (fst (snd (perform_conversions E reqs ([], w)))) = drop (length reqs - 5) reqs"
    using perform_conversions_keys [of "[]" reqs E w] by (simp add: max_entries_def)
  assume long: "5 < length reqs"
  from arg_cong [OF keys, of length] long
  show "length (fst (snd (perform_conversions E reqs ([], w)))) = 5" by simp
  from long obtain q qs where reqs: "reqs = q # qs" by (cases reqs) auto
  with \<open>distinct reqs\<close> have "q \<notin> set qs" by simp
  moreover from long reqs have "set (drop (length reqs - 5) reqs) \<subseteq> set qs"
    using set_drop_subset [of "length qs - 5" qs] by (simp add: drop_Cons' Suc_diff_le)
  ultimately have "hd reqs \<notin> set (map fst (fst (snd (perform_conversions E reqs ([], w)))))"
    unfolding keys using reqs by auto
  then show "hd reqs \<notin> fst ` set (fst (snd (perform_conversions E reqs ([], w))))" by simp
qed

theorem cache_keeps_last_five_witness:
  "distinct [([1], 300), ([2], 300), ([3], 300), ([4], 300), ([5], 300), ([6 :: 8 word], 300 :: int)] \<and>
   map fst (fst (snd (perform_conversions
     \<lparr>convert_from_bytes = (\<lambda>b r. Inr [b]), save_png = (\<lambda>img. Inr img),
      localtime = (\<lambda>k. (2025, 1, 1, 0, 0, 2 * k))\<rparr>
     [([1], 300), ([2], 300), ([3], 300), ([4], 300), ([5], 300), ([6], 300)]
     ([], \<lparr>renders = 0, clock_reads = 0\<rparr>))))
   = [([2], 300), ([3], 300), ([4], 300), ([5], 300), ([6], 300)]"
proof -
  let ?E = "\<lparr>convert_from_bytes = (\<lambda>b r. Inr [b]), save_png = (\<lambda>img. Inr img),
      localtime = (\<lambda>k. (2025, 1, 1, 0, 0, 2 * k))\<rparr> :: bytes env"
  let ?reqs = "[([1], 300), ([2], 300), ([3], 300), ([4], 300), ([5], 300), ([6 :: 8 word], 300 :: int)]"
  have d: "distinct ?reqs" by simp
  from cache_keeps_last_five [of ?E ?reqs "\<lparr>renders = 0, clock_reads = 0\<rparr>"] d
  have "map fst (fst (snd (perform_conversions ?E ?reqs ([], \<lparr>renders = 0, clock_reads = 0\<rparr>))))
      = drop (length ?reqs - 5) ?reqs" by blast
  with d show ?thesis by simp
qed

subsection \<open>What two conversions of one request have in common\<close>

lemma zip_loop_unstamped:
  "map (\<lambda>m. (filename m, data m)) zf1 = map (\<lambda>m. (filename m, data m)) zf2 \<Longrightarrow>
     map_sum id (\<lambda>(l', zf'). (l', map (\<lambda>m. (filename m, data m)) zf'))
       (fst (zip_loop E nm xs (l, zf1) w1)) =
     map_sum id (\<lambda>(l', zf'). (l', map (\<lambda>m. (filename m, data m)) zf'))
       (fst (zip_loop E nm xs (l, zf2) w2))"
proof (induction xs arbitrary: l zf1 zf2 w1 w2)
  case Nil
  then show ?case by simp
next
  case (Cons x xs)
  obtain i img where x: "x = (i, img)" by (cases x)
  show ?case
  proof (cases "save_png E img")
    case (Inl e)
    with x show ?thesis by simp
  next
    case (Inr b)
    have "map (\<lambda>m. (filename m, data m)) (writestr zf1 (localtime E (clock_reads w1)) (nm i) b)
        = map (\<lambda>m. (filename m, data m)) (writestr zf2 (localtime E (clock_reads w2)) (nm i) b)"
      using Cons.prems by (simp add: writestr_def)
    from Cons.IH [OF this] x Inr show ?thesis by simp
  qed
qed

lemma zip_loop_same_clock:
  "(\<And>k. localtime E (clock_reads w1 + k) = localtime E (clock_reads w2 + k)) \<Longrightarrow>
     fst (zip_loop E nm xs acc w1) = fst (zip_loop E nm xs acc w2)"
proof (induction xs arbitrary: acc w1 w2)
  case Nil
  then show ?case by simp
next
  case (Cons x xs)
  obtain i img where x: "x = (i, img)" by (cases x)
  obtain l zf where acc: "acc = (l, zf)" by (cases acc)
  show ?case
  proof (cases "save_png E img")
    case (Inl e)
    with x acc show ?thesis by simp
  next
    case (Inr b)
    have now: "localtime E (clock_reads w1) = localtime E (clock_reads w2)"
      using Cons.prems [of 0] by simp
    have "localtime E (clock_reads (w1\<lparr>clock_reads := Suc (clock_reads w1)\<rparr>) + k)
        = localtime E (clock_reads (w2\<lparr>clock_reads := Suc (clock_reads w2)\<rparr>) + k)" for k
      using Cons.prems [of "Suc k"] by simp
    from Cons.IH [OF this] x acc Inr now show ?thesis by simp
  qed
qed

lemma conversion_body_unstamped:
  "fst (fst (conversion_body E pdf d w1)) = fst (fst (conversion_body E pdf d w2)) \<and>
   unstamped (snd (fst (conversion_body E pdf d w1))) =
   unstamped (snd (fst (conversion_body E pdf d w2)))"
proof (cases "convert_from_bytes E pdf d")
  case (Inl e)
  then show ?thesis
    by (simp add: conversion_body_def conversion_try_def)
next
  case (Inr images)
  let ?run = "\<lambda>w. zip_loop E page_name (enumerate 0 images) ([], []) (w\<lparr>renders := Suc (renders w)\<rparr>)"
  have same: "map_sum id (\<lambda>(l', zf'). (l', map (\<lambda>m. (filename m, data m)) zf')) (fst (?run w1))
      = map_sum id (\<lambda>(l', zf'). (l', map (\<lambda>m. (filename m, data m)) zf')) (fst (?run w2))"
    by (rule zip_loop_unstamped) simp
  obtain r1 v1 where r1: "?run w1 = (r1, v1)" by (cases "?run w1")
  obtain r2 v2 where r2: "?run w2 = (r2, v2)" by (cases "?run w2")
  from same r1 r2 Inr show ?thesis
    by (cases r1; cases r2)
      (auto simp: conversion_body_def conversion_try_def unstamped_def)
qed

lemma conversion_body_same_clock:
  assumes "\<And>k. localtime E (clock_reads w1 + k) = localtime E (clock_reads w2 + k)"
  shows "fst (conversion_body E pdf d w1) = fst (conversion_body E pdf d w2)"
proof (cases "convert_from_bytes E pdf d")
  case (Inl e)
  then show ?thesis
    by (simp add: conversion_body_def conversion_try_def)
next
  case (Inr images)
  let ?run = "\<lambda>w. zip_loop E page_name (enumerate 0 images) ([], []) (w\<lparr>renders := Suc (renders w)\<rparr>)"
  have "fst (?run w1) = fst (?run w2)"
    by (rule zip_loop_same_clock) (simp add: assms)
  moreover obtain r1 v1 where r1: "?run w1 = (r1, v1)" by (cases "?run w1")
  moreover obtain r2 v2 where r2: "?run w2 = (r2, v2)" by (cases "?run w2")
  ultimately show ?thesis using Inr
    by (cases r1) (auto simp: conversion_body_def conversion_try_def)
qed

text \<open>
  C5, as amended. Two calls with an identical request return bit-identical archive
  bytes when the second is served from the cache, which is the case for two calls in
  a row and whenever the entry is still held. When the entry has been evicted and the
  conversion runs again, it returns the same page bytes and an archive with the same
  member names and the same member data in the same order; the members carry the time
  of the new run, so the archives are equal when the clock shows the same times at
  the writes.
\<close>

theorem archive_reproducible_up_to_stamps:
  "(perform_conversion E pdf d (c, w) = (r, c', w') \<longrightarrow>
      fst (perform_conversion E pdf d (c', w')) = r) \<and>
   (cache_lookup c (pdf, d) = Some r \<longrightarrow> fst (perform_conversion E pdf d (c, w)) = r) \<and>
   fst (fst (conversion_body E pdf d w1)) = fst (fst (conversion_body E pdf d w2)) \<and>
   unstamped (snd (fst (conversion_body E pdf d w1))) =
     unstamped (snd (fst (conversion_body E pdf d w2))) \<and>
   ((\<forall>k. localtime E (clock_reads w1 + k) = localtime E (clock_reads w2 + k)) \<longrightarrow>
      fst (conversion_body E pdf d w1) = fst (conversion_body E pdf d w2))"
proof (intro conjI impI)
  assume "perform_conversion E pdf d (c, w) = (r, c', w')"
  from perform_conversion_twice [OF this]
  show "fst (perform_conversion E pdf d (c', w')) = r" by simp
next
  assume "cache_lookup c (pdf, d) = Some r"
  then show "fst (perform_conversion E pdf d (c, w)) = r"
    by (simp add: perform_conversion_hit)
next
  assume "\<forall>k. localtime E (clock_reads w1 + k) = localtime E (clock_reads w2 + k)"
  then show "fst (conversion_body E pdf d w1) = fst (conversion_body E pdf d w2)"
    using conversion_body_same_clock [of E w1 w2 pdf d] by blast
qed (simp_all add: conversion_body_unstamped)

theorem archive_reproducible_up_to_stamps_witness:
  "cache_lookup
     [(([1], 300), (Some [[1]], ZipData [\<lparr>filename = ''page_001.png'',
          date_time = (2025, 1, 1, 0, 0, 0), data = [1]\<rparr>]))] ([1], 300)
   = Some (Some [[1]], ZipData [\<lparr>filename = ''page_001.png'',
          date_time = (2025, 1, 1, 0, 0, 0), data = [1]\<rparr>]) \<and>
   fst (perform_conversion
     \<lparr>convert_from_bytes = (\<lambda>b r. Inr [b]), save_png = (\<lambda>img. Inr img),
      localtime = (\<lambda>k. (2025, 1, 1, 0, 0, 2 * k))\<rparr>
     [1] 300
     ([(([1], 300), (Some [[1]], ZipData [\<lparr>filename = ''page_001.png'',
          date_time = (2025, 1, 1, 0, 0, 0), data = [1]\<rparr>]))],
      \<lparr>renders = 1, clock_reads = 1\<rparr>))
   = (Some [[1]], ZipData [\<lparr>filename = ''page_001.png'',
          date_time = (2025, 1, 1, 0, 0, 0), data = [1]\<rparr>])"
proof -
  let ?E = "\<lparr>convert_from_bytes = (\<lambda>b r. Inr [b]), save_png = (\<lambda>img. Inr img),
      localtime = (\<lambda>k. (2025, 1, 1, 0, 0, 2 * k))\<rparr> :: bytes env"
  let ?r = "(Some [[1 :: 8 word]], ZipData [\<lparr>filename = ''page_001.png'',
      date_time = (2025, 1, 1, 0, 0, 0), data = [1]\<rparr>])"
  have held: "cache_lookup [(([1], 300), ?r)] ([1], 300) = Some ?r"
    by (simp add: cache_lookup_def)
  from archive_reproducible_up_to_stamps
    [where E = ?E and pdf = "[1]" and d = 300 and c = "[(([1], 300), ?r)]"
      and w = "\<lparr>renders = 1, clock_reads = 1\<rparr>" and r = ?r] held
  have "fst (perform_conversion ?E [1] 300 ([(([1], 300), ?r)], \<lparr>renders = 1, clock_reads = 1\<rparr>))
      = ?r" by blast
  with held show ?thesis by blast
qed

theorem archive_bytes_counterexample:
  "(let rs = fst (perform_conversions
       \<lparr>convert_from_bytes = (\<lambda>b r. Inr [b]), save_png = (\<lambda>img. Inr img),
        localtime = (\<lambda>k. (2025, 1, 1, 0, 0, 2 * k))\<rparr>
       [([1], 300), ([2], 300), ([3], 300), ([4], 300), ([5], 300), ([6], 300), ([1], 300)]
       ([], \<lparr>renders = 0, clock_reads = 0\<rparr>))
    in rs ! 0 = (Some [[1]], ZipData [\<lparr>filename = ''page_001.png'',
                   date_time = (2025, 1, 1, 0, 0, 0), data = [1]\<rparr>]) \<and>
       rs ! 6 = (Some [[1]], ZipData [\<lparr>filename = ''page_001.png'',
                   date_time = (2025, 1, 1, 0, 0, 12), data = [1]\<rparr>]) \<and>
       rs ! 0 \<noteq> rs ! 6)"
proof -
  have name: "page_name 0 = ''page_001.png''" by code_simp
  show ?thesis
    using name
    by (simp add: perform_conversion_def cache_lookup_def cache_store_def max_entries_def
        conversion_body_def conversion_try_def writestr_def Let_def)
qed

subsection \<open>The resolution of app.py\<close>

lemma py_int_error: "py_int s = Inl e \<Longrightarrow> e = invalid_literal"
  by (auto simp: py_int_def Let_def split: list.splits option.splits if_splits)

text \<open>
  C10. In app.py the resolution is read outside any \<^verbatim>\<open>try\<close>: when \<^verbatim>\<open>OUTPUT_DPI\<close> is set
  to a string that \<^verbatim>\<open>int\<close> rejects, the run of the script ends with that \<^verbatim>\<open>ValueError\<close>,
  uncaught, whether or not a file is uploaded, and nothing has been converted. The
  default of 300 is what an unset variable gives; a string that \<^verbatim>\<open>int\<close> accepts gives
  its value.
\<close>

theorem unparsable_dpi_escapes:
  "(py_int s = Inl e \<longrightarrow>
      (\<exists>m. e = ValueError m) \<and> configured_dpi (Some s) = Inl e \<and>
      app_script E (Some s) uploaded w = (Inl e, w)) \<and>
   (py_int s = Inr n \<longrightarrow> configured_dpi (Some s) = Inr n) \<and>
   configured_dpi None = Inr 300"
proof (intro conjI impI)
  assume "py_int s = Inl e"
  then show "\<exists>m. e = ValueError m"
    using py_int_error [of s e] by (simp add: invalid_literal_def)
qed (simp_all add: configured_dpi_def app_script_def)

theorem unparsable_dpi_escapes_witness:
  "py_int ''300dpi'' = Inl (ValueError ''invalid literal for int() with base 10'') \<and>
   app_script
     \<lparr>convert_from_bytes = (\<lambda>b r. Inr [b]), save_png = (\<lambda>img. Inr img),
      localtime = (\<lambda>k. (2025, 1, 1, 0, 0, 2 * k))\<rparr>
     (Some ''300dpi'') (Some \<lparr>name = ''doc.pdf'', file_id = ''1'', getvalue = [37, 80, 68, 70]\<rparr>)
     \<lparr>renders = 0, clock_reads = 0\<rparr>
   = (Inl (ValueError ''invalid literal for int() with base 10''),
      \<lparr>renders = 0, clock_reads = 0\<rparr>)"
proof -
  have bad: "py_int ''300dpi'' = Inl (ValueError ''invalid literal for int() with base 10'')"
    by (simp add: py_int_def is_space_def is_digit_def digit_of_def invalid_literal_def)
  from unparsable_dpi_escapes
    [where s = "''300dpi''" and e = "ValueError ''invalid literal for int() with base 10''"
      and E = "\<lparr>convert_from_bytes = (\<lambda>b r. Inr [b]), save_png = (\<lambda>img. Inr img),
        localtime = (\<lambda>k. (2025, 1, 1, 0, 0, 2 * k))\<rparr>"
      and uploaded = "Some \<lparr>name = ''doc.pdf'', file_id = ''1'', getvalue = [37, 80, 68, 70]\<rparr>"
      and w = "\<lparr>renders = 0, clock_reads = 0\<rparr>"] bad
  show ?thesis by blast
qed

subsection \<open>The session state of app1.py\<close>

lemma session_ok_clear: "session_ok session_clear"
  by (simp add: session_ok_def session_clear_def)

lemma session_ok_callback:
  "session_ok ss \<Longrightarrow> session_ok (ss\<lparr>current_page_index := Some 0\<rparr>)"
  by (auto simp: session_ok_def split: option.splits)

lemma session_ok_ensure_index:
  "session_ok ss \<Longrightarrow>
     session_ok (if current_page_index ss = None then ss\<lparr>current_page_index := Some 0\<rparr> else ss)"
  by (simp add: session_ok_callback)

lemma app1_sidebar_ok: "session_ok ss \<Longrightarrow> \<exists>b. app1_sidebar ss = Inr b"
  by (auto simp: session_ok_def app1_sidebar_def attribute_def split: option.splits)

lemma conversion_needed_ok: "session_ok ss \<Longrightarrow> \<exists>b. conversion_needed ss fid d = Inr b"
  by (auto simp: session_ok_def conversion_needed_def attribute_def split: option.splits)

lemma conversion_needed_False:
  "conversion_needed ss fid d = Inr False \<Longrightarrow> last_file_id ss = Some fid \<and> last_dpi ss = Some d"
  by (auto simp: conversion_needed_def attribute_def split: option.splits if_splits)

lemma conversion_needed_index:
  "conversion_needed (ss\<lparr>current_page_index := x\<rparr>) fid d = conversion_needed ss fid d"
  by (auto simp: conversion_needed_def split: option.splits)

lemma app1_convert_fresh:
  assumes "conversion_needed ss (file_id f) d = Inr True"
  shows "\<exists>msg ss' c' w'.
           app1_convert E f d (ss, c, w) = (Inr (Some msg), (ss', c', w')) \<and>
           (ss' = session_clear \<or>
            (\<exists>l. image_bytes_list ss' = Some (Some l) \<and>
                 total_pages ss' = Some (int (length l)) \<and>
                 current_page_index ss' = Some 0 \<and> pdf_filename ss' \<noteq> None \<and>
                 zip_data ss' \<noteq> None \<and>
                 last_file_id ss' = Some (file_id f) \<and> last_dpi ss' = Some d))"
proof -
  obtain r c' w' where pc: "perform_conversion E (getvalue f) d (c, w) = (r, c', w')"
    by (cases "perform_conversion E (getvalue f) d (c, w)")
  show ?thesis
  proof (cases "fst r")
    case None
    with assms pc show ?thesis by (simp add: app1_convert_def Let_def)
  next
    case (Some l)
    with assms pc show ?thesis by (simp add: app1_convert_def Let_def)
  qed
qed

lemma session_ok_fresh:
  assumes "image_bytes_list ss = Some (Some l)" "total_pages ss = Some (int (length l))"
    "current_page_index ss = Some 0" "pdf_filename ss \<noteq> None"
    "last_file_id ss = Some fid" "last_dpi ss = Some d"
  shows "session_ok ss"
  using assms by (simp add: session_ok_def)

lemma app1_convert_ok:
  assumes "session_ok ss"
  shows "\<exists>msg ss' c' w'.
           app1_convert E f d (ss, c, w) = (Inr msg, (ss', c', w')) \<and> session_ok ss' \<and>
           (last_file_id ss' = None \<or>
            (last_file_id ss' = Some (file_id f) \<and> last_dpi ss' = Some d))"
proof -
  from conversion_needed_ok [OF assms] obtain b where
    b: "conversion_needed ss (file_id f) d = Inr b" by blast
  show ?thesis
  proof (cases b)
    case True
    from b True have need: "conversion_needed ss (file_id f) d = Inr True" by simp
    from app1_convert_fresh [OF need, of E c w]
    obtain msg ss' c' w' where
      conv: "app1_convert E f d (ss, c, w) = (Inr (Some msg), (ss', c', w'))" and
      shape: "ss' = session_clear \<or>
        (\<exists>l. image_bytes_list ss' = Some (Some l) \<and>
             total_pages ss' = Some (int (length l)) \<and>
             current_page_index ss' = Some 0 \<and> pdf_filename ss' \<noteq> None \<and>
             zip_data ss' \<noteq> None \<and>
             last_file_id ss' = Some (file_id f) \<and> last_dpi ss' = Some d)"
      by blast
    from shape have "session_ok ss' \<and>
        (last_file_id ss' = None \<or> (last_file_id ss' = Some (file_id f) \<and> last_dpi ss' = Some d))"
    proof
      assume "ss' = session_clear"
      then show ?thesis by (simp add: session_ok_clear) (simp add: session_clear_def)
    next
      assume "\<exists>l. image_bytes_list ss' = Some (Some l) \<and>
             total_pages ss' = Some (int (length l)) \<and>
             current_page_index ss' = Some 0 \<and> pdf_filename ss' \<noteq> None \<and>
             zip_data ss' \<noteq> None \<and>
             last_file_id ss' = Some (file_id f) \<and> last_dpi ss' = Some d"
      then show ?thesis using session_ok_fresh [of ss'] by blast
    qed
    with conv show ?thesis by blast
  next
    case False
    with b have "app1_convert E f d (ss, c, w) = (Inr None, (ss, c, w))"
      by (simp add: app1_convert_def)
    moreover have "last_file_id ss = Some (file_id f) \<and> last_dpi ss = Some d"
      using conversion_needed_False [of ss "file_id f" d] b False by simp
    ultimately show ?thesis using assms by blast
  qed
qed

lemma list_getitem_in_range:
  "0 \<le> i \<Longrightarrow> i < int (length xs) \<Longrightarrow> list_getitem xs i = Inr (xs ! nat i)"
  by (simp add: list_getitem_def Let_def)

lemma app1_display_ok:
  assumes "session_ok ss"
  shows "\<exists>pg again ss'.
           app1_display inp ss = (Inr (pg, again), ss') \<and> session_ok ss' \<and>
           (case pg of None \<Rightarrow> True
            | Some v \<Rightarrow> 0 \<le> shown_index v \<and> shown_index v \<le> shown_total v - 1 \<and>
                current_page_index ss = Some (shown_index v)) \<and>
           last_file_id ss' = last_file_id ss \<and> last_dpi ss' = last_dpi ss"
proof (cases "image_bytes_list ss")
  case None
  with assms show ?thesis by (auto simp: app1_display_def)
next
  case (Some x)
  show ?thesis
  proof (cases x)
    case None
    with Some assms show ?thesis by (auto simp: app1_display_def)
  next
    case (Some l)
    with \<open>image_bytes_list ss = Some x\<close> have lst: "image_bytes_list ss = Some (Some l)" by simp
    with assms obtain i fn where
      tp: "total_pages ss = Some (int (length l))" and fn: "pdf_filename ss = Some fn" and
      i: "current_page_index ss = Some i" and i0: "0 \<le> i" and
      ilt: "i < int (length l) \<or> i = 0"
      by (auto simp: session_ok_def split: option.splits)
    show ?thesis
    proof (cases "0 < int (length l)")
      case False
      with lst tp assms show ?thesis by (auto simp: app1_display_def attribute_def)
    next
      case True
      with ilt have lt: "i < int (length l)" by auto
      note get = list_getitem_in_range [OF i0 lt]
      let ?v = "\<lparr>shown_index = i, shown_total = int (length l), shown_bytes = l ! nat i,
          shown_name = fn @ ''_page_'' @ format_03d_int (i + 1) @ ''.png''\<rparr>"
      have prev: "session_ok (ss\<lparr>current_page_index := Some (i - 1)\<rparr>)" if "i \<noteq> 0"
        using assms lst tp fn i0 lt that by (auto simp: session_ok_def split: option.splits)
      have nxt: "session_ok (ss\<lparr>current_page_index := Some (i + 1)\<rparr>)"
        if "i \<noteq> int (length l) - 1"
        using assms lst tp fn i0 lt that by (auto simp: session_ok_def split: option.splits)
      have disp: "app1_display inp ss =
          (if previous_clicked inp \<and> \<not> i = 0 then
             (Inr (Some ?v, True), ss\<lparr>current_page_index := Some (i - 1)\<rparr>)
           else if next_clicked inp \<and> \<not> i = int (length l) - 1 then
             (Inr (Some ?v, True), ss\<lparr>current_page_index := Some (i + 1)\<rparr>)
           else (Inr (Some ?v, False), ss))"
        using lst tp fn i True get by (simp add: app1_display_def attribute_def Let_def)
      show ?thesis
        unfolding disp using assms prev nxt i i0 lt by auto
    qed
  qed
qed

lemma app1_script_ok:
  assumes "session_ok ss"
  shows "\<exists>scr ss' c' w'.
           app1_script E inp (ss, c, w) = (Inr scr, (ss', c', w')) \<and> session_ok ss' \<and>
           page_in_bounds scr \<and> remembers ss' inp"
proof -
  let ?ss0 = "if uploader_changed inp \<or> dpi_changed inp
              then ss\<lparr>current_page_index := Some 0\<rparr> else ss"
  let ?ss1 = "if current_page_index ?ss0 = None
              then ?ss0\<lparr>current_page_index := Some 0\<rparr> else ?ss0"
  have ok0: "session_ok ?ss0" using assms by (simp add: session_ok_callback)
  then have ok1: "session_ok ?ss1" by (rule session_ok_ensure_index)
  from app1_sidebar_ok [OF ok0] obtain button where side: "app1_sidebar ?ss0 = Inr button"
    by blast
  show ?thesis
  proof (cases "uploaded_file inp")
    case None
    let ?ss2 = "if last_file_id ?ss1 \<noteq> None
                then session_clear\<lparr>current_page_index := Some 0\<rparr> else ?ss1"
    have "session_ok ?ss2"
      using ok1 session_ok_callback [OF session_ok_clear] by presburger
    moreover have "last_file_id ?ss2 = None" by (simp add: session_clear_def)
    then have "remembers ?ss2 inp" by (simp add: remembers_def)
    moreover have "app1_script E inp (ss, c, w) =
        (Inr \<lparr>archive_button = button, notice = Some ShowInfo, page = None, rerun = False\<rparr>,
         (?ss2, c, w))"
      using None side by (simp add: app1_script_def Let_def)
    ultimately show ?thesis by (simp add: page_in_bounds_def)
  next
    case (Some f)
    from app1_convert_ok [OF ok1, of E f "dpi inp" c w] obtain msg ss2 c' w' where
      conv: "app1_convert E f (dpi inp) (?ss1, c, w) = (Inr msg, (ss2, c', w'))" and
      ok2: "session_ok ss2" and
      pair: "last_file_id ss2 = None \<or>
             (last_file_id ss2 = Some (file_id f) \<and> last_dpi ss2 = Some (dpi inp))"
      by blast
    from app1_display_ok [OF ok2, of inp] obtain pg again ss3 where
      disp: "app1_display inp ss2 = (Inr (pg, again), ss3)" and ok3: "session_ok ss3" and
      bounds: "case pg of None \<Rightarrow> True
        | Some v \<Rightarrow> 0 \<le> shown_index v \<and> shown_index v \<le> shown_total v - 1 \<and>
            current_page_index ss2 = Some (shown_index v)" and
      same: "last_file_id ss3 = last_file_id ss2" "last_dpi ss3 = last_dpi ss2"
      by blast
    have script: "app1_script E inp (ss, c, w) =
        (Inr \<lparr>archive_button = button, notice = msg, page = pg, rerun = again\<rparr>,
         (ss3, c', w'))"
      using Some side conv disp by (simp add: app1_script_def Let_def)
    have "remembers ss3 inp" using pair same Some by (auto simp: remembers_def)
    moreover have "page_in_bounds \<lparr>archive_button = button, notice = msg, page = pg,
        rerun = again\<rparr>"
      using bounds by (auto simp: page_in_bounds_def split: option.splits)
    ultimately show ?thesis using script ok3 by blast
  qed
qed

lemma app1_run_ok:
  assumes "session_ok ss"
  shows "\<exists>scrs ss' c' w'.
           app1_run E inp (ss, c, w) = (Inr scrs, (ss', c', w')) \<and> session_ok ss' \<and>
           list_all page_in_bounds scrs \<and> remembers ss' inp"
proof -
  from app1_script_ok [OF assms, of E inp c w] obtain scr ss1 c1 w1 where
    first: "app1_script E inp (ss, c, w) = (Inr scr, (ss1, c1, w1))" and ok1: "session_ok ss1"
    and b1: "page_in_bounds scr" and r1: "remembers ss1 inp"
    by blast
  show ?thesis
  proof (cases "rerun scr")
    case False
    with first ok1 b1 r1 show ?thesis by (simp add: app1_run_def)
  next
    case True
    let ?inp = "inp\<lparr>uploader_changed := False, dpi_changed := False,
        previous_clicked := False, next_clicked := False\<rparr>"
    from app1_script_ok [OF ok1, of E ?inp c1 w1] obtain scr' ss2 c2 w2 where
      second: "app1_script E ?inp (ss1, c1, w1) = (Inr scr', (ss2, c2, w2))" and
      ok2: "session_ok ss2" and b2: "page_in_bounds scr'" and r2: "remembers ss2 ?inp"
      by blast
    from r2 have "remembers ss2 inp" by (simp add: remembers_def split: option.splits)
    with first second True ok2 b1 b2 show ?thesis by (simp add: app1_run_def)
  qed
qed

lemma app1_session_ok:
  assumes "session_ok ss"
  shows "\<exists>scrs ss' c' w'.
           app1_session E inps (ss, c, w) = (Inr scrs, (ss', c', w')) \<and> session_ok ss' \<and>
           list_all page_in_bounds scrs \<and> (inps \<noteq> [] \<longrightarrow> remembers ss' (last inps))"
  using assms
proof (induction inps arbitrary: ss c w)
  case Nil
  then show ?case by simp
next
  case (Cons inp inps)
  from app1_run_ok [OF Cons.prems, of E inp c w] obtain scrs ss1 c1 w1 where
    run: "app1_run E inp (ss, c, w) = (Inr scrs, (ss1, c1, w1))" and ok1: "session_ok ss1"
    and b1: "list_all page_in_bounds scrs" and r1: "remembers ss1 inp"
    by blast
  from Cons.IH [OF ok1, of c1 w1] obtain later ss2 c2 w2 where
    rest: "app1_session E inps (ss1, c1, w1) = (Inr later, (ss2, c2, w2))" and
    ok2: "session_ok ss2" and b2: "list_all page_in_bounds later" and
    r2: "inps \<noteq> [] \<longrightarrow> remembers ss2 (last inps)"
    by blast
  have "inps = [] \<Longrightarrow> ss2 = ss1" using rest by simp
  with run rest ok2 b1 b2 r1 r2 show ?case by auto
qed

lemma conversion_needed_changed:
  assumes "remembers ss prev"
    "(map_option file_id (uploaded_file prev), dpi prev) \<noteq> (Some fid, d)"
  shows "conversion_needed ss fid d = Inr True"
  using assms
  by (auto simp: remembers_def conversion_needed_def attribute_def split: option.splits)

lemma app1_script_fresh:
  assumes ok: "session_ok ss" and up: "uploaded_file inp = Some f"
    and need: "conversion_needed ss (file_id f) (dpi inp) = Inr True"
  shows "\<exists>scr s'. app1_script E inp (ss, c, w) = (Inr scr, s') \<and>
           notice scr \<noteq> None \<and> first_page_or_none scr"
proof -
  let ?ss0 = "if uploader_changed inp \<or> dpi_changed inp
              then ss\<lparr>current_page_index := Some 0\<rparr> else ss"
  let ?ss1 = "if current_page_index ?ss0 = None
              then ?ss0\<lparr>current_page_index := Some 0\<rparr> else ?ss0"
  have ok0: "session_ok ?ss0" using ok by (simp add: session_ok_callback)
  from app1_sidebar_ok [OF ok0] obtain button where side: "app1_sidebar ?ss0 = Inr button"
    by blast
  have "conversion_needed ?ss1 (file_id f) (dpi inp) = conversion_needed ss (file_id f) (dpi inp)"
    by (simp add: conversion_needed_index)
  with need have need1: "conversion_needed ?ss1 (file_id f) (dpi inp) = Inr True" by simp
  from app1_convert_fresh [OF need1, of E c w] obtain msg ss2 c' w' where
    conv: "app1_convert E f (dpi inp) (?ss1, c, w) = (Inr (Some msg), (ss2, c', w'))" and
    shape: "ss2 = session_clear \<or>
      (\<exists>l. image_bytes_list ss2 = Some (Some l) \<and>
           total_pages ss2 = Some (int (length l)) \<and>
           current_page_index ss2 = Some 0 \<and> pdf_filename ss2 \<noteq> None \<and>
           zip_data ss2 \<noteq> None \<and>
           last_file_id ss2 = Some (file_id f) \<and> last_dpi ss2 = Some (dpi inp))"
    by blast
  from shape have ok2: "session_ok ss2"
    using session_ok_clear session_ok_fresh [of ss2] by blast
  from shape have idx: "current_page_index ss2 = None \<or> current_page_index ss2 = Some 0"
    by (auto simp: session_clear_def)
  from app1_display_ok [OF ok2, of inp] obtain pg again ss3 where
    disp: "app1_display inp ss2 = (Inr (pg, again), ss3)" and
    bounds: "case pg of None \<Rightarrow> True
      | Some v \<Rightarrow> 0 \<le> shown_index v \<and> shown_index v \<le> shown_total v - 1 \<and>
          current_page_index ss2 = Some (shown_index v)"
    by blast
  have script: "app1_script E inp (ss, c, w) =
      (Inr \<lparr>archive_button = button, notice = Some msg, page = pg, rerun = again\<rparr>,
       (ss3, c', w'))"
    using up side conv disp by (simp add: app1_script_def Let_def)
  have "first_page_or_none \<lparr>archive_button = button, notice = Some msg, page = pg,
      rerun = again\<rparr>"
    using bounds idx by (auto simp: first_page_or_none_def split: option.splits)
  with script show ?thesis by simp
qed

subsection \<open>The page index of app1.py\<close>

text \<open>
  C8. In a session of app1.py, take a run in which a file is uploaded and the pair of
  file identifier and resolution differs from the pair of the run before (or there
  was no run before). In that run the conversion is attempted, and the page that the
  script shows, if it shows one, is the first page: the index has been set to 0
  before the page is drawn.
\<close>

theorem index_reset_when_pair_changes:
  assumes "uploaded_file inp = Some f"
      and "inps = [] \<or>
           (map_option file_id (uploaded_file (last inps)), dpi (last inps))
             \<noteq> (Some (file_id f), dpi inp)"
  shows "\<exists>scr s'. app1_script E inp (snd (app1_session E inps (session_clear, c, w)))
                     = (Inr scr, s') \<and>
           notice scr \<noteq> None \<and> first_page_or_none scr"
proof -
  from app1_session_ok [OF session_ok_clear, of E inps c w] obtain scrs ss c' w' where
    sess: "app1_session E inps (session_clear, c, w) = (Inr scrs, (ss, c', w'))" and
    ok: "session_ok ss" and rem: "inps \<noteq> [] \<longrightarrow> remembers ss (last inps)"
    by blast
  have need: "conversion_needed ss (file_id f) (dpi inp) = Inr True"
  proof (cases "inps = []")
    case True
    with sess have "ss = session_clear" by simp
    then show ?thesis by (simp add: conversion_needed_def session_clear_def)
  next
    case False
    with rem assms(2) show ?thesis by (auto intro: conversion_needed_changed)
  qed
  from app1_script_fresh [OF ok assms(1) need, of E c' w'] sess show ?thesis by simp
qed

theorem index_reset_when_pair_changes_witness:
  "uploaded_file
     \<lparr>uploaded_file = Some \<lparr>name = ''doc.pdf'', file_id = ''1'', getvalue = [7, 8, 9]\<rparr>,
      dpi = 600, uploader_changed = False, dpi_changed = True,
      previous_clicked = False, next_clicked = False\<rparr>
   = Some \<lparr>name = ''doc.pdf'', file_id = ''1'', getvalue = [7, 8, 9]\<rparr> \<and>
   (\<exists>scr s'.
      app1_script
        \<lparr>convert_from_bytes = (\<lambda>b r. Inr b), save_png = (\<lambda>img. Inr [img]),
         localtime = (\<lambda>k. (2025, 1, 1, 0, 0, 2 * k))\<rparr>
        \<lparr>uploaded_file = Some \<lparr>name = ''doc.pdf'', file_id = ''1'', getvalue = [7, 8, 9]\<rparr>,
         dpi = 600, uploader_changed = False, dpi_changed = True,
         previous_clicked = False, next_clicked = False\<rparr>
        (snd (app1_session
          \<lparr>convert_from_bytes = (\<lambda>b r. Inr b), save_png = (\<lambda>img. Inr [img]),
           localtime = (\<lambda>k. (2025, 1, 1, 0, 0, 2 * k))\<rparr>
          [\<lparr>uploaded_file = Some \<lparr>name = ''doc.pdf'', file_id = ''1'', getvalue = [7, 8, 9]\<rparr>,
            dpi = 300, uploader_changed = True, dpi_changed = False,
            previous_clicked = False, next_clicked = False\<rparr>,
           \<lparr>uploaded_file = Some \<lparr>name = ''doc.pdf'', file_id = ''1'', getvalue = [7, 8, 9]\<rparr>,
            dpi = 300, uploader_changed = False, dpi_changed = False,
            previous_clicked = False, next_clicked = True\<rparr>]
          (session_clear, [], \<lparr>renders = 0, clock_reads = 0\<rparr>)))
      = (Inr scr, s') \<and> notice scr \<noteq> None \<and> first_page_or_none scr \<and>
      map_option shown_index (page scr) = Some 0) \<and>
   current_page_index (fst (snd (app1_session
     \<lparr>convert_from_bytes = (\<lambda>b r. Inr b), save_png = (\<lambda>img. Inr [img]),
      localtime = (\<lambda>k. (2025, 1, 1, 0, 0, 2 * k))\<rparr>
     [\<lparr>uploaded_file = Some \<lparr>name = ''doc.pdf'', file_id = ''1'', getvalue = [7, 8, 9]\<rparr>,
       dpi = 300, uploader_changed = True, dpi_changed = False,
       previous_clicked = False, next_clicked = False\<rparr>,
      \<lparr>uploaded_file = Some \<lparr>name = ''doc.pdf'', file_id = ''1'', getvalue = [7, 8, 9]\<rparr>,
       dpi = 300, uploader_changed = False, dpi_changed = False,
       previous_clicked = False, next_clicked = True\<rparr>]
     (session_clear, [], \<lparr>renders = 0, clock_reads = 0\<rparr>)))) = Some 1"
proof -
  let ?E = "\<lparr>convert_from_bytes = (\<lambda>b r. Inr b), save_png = (\<lambda>img. Inr [img]),
      localtime = (\<lambda>k. (2025, 1, 1, 0, 0, 2 * k))\<rparr> :: 8 word env"
  let ?s = "(session_clear, [], \<lparr>renders = 0, clock_reads = 0\<rparr>)"
  let ?f = "\<lparr>name = ''doc.pdf'', file_id = ''1'', getvalue = [7, 8, 9]\<rparr>"
  let ?inp = "\<lparr>uploaded_file = Some ?f, dpi = 600, uploader_changed = False,
      dpi_changed = True, previous_clicked = False, next_clicked = False\<rparr>"
  let ?inps = "[\<lparr>uploaded_file = Some ?f, dpi = 300, uploader_changed = True,
        dpi_changed = False, previous_clicked = False, next_clicked = False\<rparr>,
      \<lparr>uploaded_file = Some ?f, dpi = 300, uploader_changed = False,
        dpi_changed = False, previous_clicked = False, next_clicked = True\<rparr>]"
  have up: "uploaded_file ?inp = Some ?f" by simp
  have changed: "?inps = [] \<or>
      (map_option file_id (uploaded_file (last ?inps)), dpi (last ?inps))
        \<noteq> (Some (file_id ?f), dpi ?inp)" by simp
  have before: "current_page_index (fst (snd (app1_session ?E ?inps ?s))) = Some 1"
    by code_simp
  have shown: "(case fst (app1_script ?E ?inp (snd (app1_session ?E ?inps ?s))) of
        Inl e \<Rightarrow> None
      | Inr scr \<Rightarrow> map_option shown_index (page scr)) = Some 0"
    by code_simp
  from index_reset_when_pair_changes [OF up changed, of ?E "[]" "\<lparr>renders = 0, clock_reads = 0\<rparr>"]
  obtain scr s' where
    run: "app1_script ?E ?inp (snd (app1_session ?E ?inps ?s)) = (Inr scr, s')" and
    tried: "notice scr \<noteq> None" and first: "first_page_or_none scr" by blast
  have idx: "map_option shown_index (page scr) = Some 0"
    using shown unfolding run by simp
  from up before run tried first idx show ?thesis by blast
qed

text \<open>
  C9. A session of app1.py, from the empty session state, whatever the widgets return
  in each run: no run ends in an exception, so the access
  \<^verbatim>\<open>image_bytes_list[current_index]\<close> never raises, and every page shown has an index
  from 0 to \<^verbatim>\<open>total_pages - 1\<close>. The state between the runs keeps the index within the
  stored list.
\<close>

theorem page_index_in_bounds:
  "\<exists>scrs s'. app1_session E inps (session_clear, c, w) = (Inr scrs, s') \<and>
      list_all page_in_bounds scrs \<and> session_ok (fst s')"
  using app1_session_ok [OF session_ok_clear, of E inps c w] by auto

theorem page_index_in_bounds_witness:
  "(\<exists>scrs s'.
      app1_session
        \<lparr>convert_from_bytes = (\<lambda>b r. Inr b), save_png = (\<lambda>img. Inr [img]),
         localtime = (\<lambda>k. (2025, 1, 1, 0, 0, 2 * k))\<rparr>
        [\<lparr>uploaded_file = Some \<lparr>name = ''doc.pdf'', file_id = ''1'', getvalue = [7, 8, 9]\<rparr>,
          dpi = 300, uploader_changed = True, dpi_changed = False,
          previous_clicked = False, next_clicked = False\<rparr>,
         \<lparr>uploaded_file = Some \<lparr>name = ''doc.pdf'', file_id = ''1'', getvalue = [7, 8, 9]\<rparr>,
          dpi = 300, uploader_changed = False, dpi_changed = False,
          previous_clicked = False, next_clicked = True\<rparr>]
        (session_clear, [], \<lparr>renders = 0, clock_reads = 0\<rparr>) = (Inr scrs, s') \<and>
      list_all page_in_bounds scrs \<and> session_ok (fst s') \<and>
      map (\<lambda>scr. map_option shown_index (page scr)) scrs = [Some 0, Some 0, Some 1])"
proof -
  let ?E = "\<lparr>convert_from_bytes = (\<lambda>b r. Inr b), save_png = (\<lambda>img. Inr [img]),
      localtime = (\<lambda>k. (2025, 1, 1, 0, 0, 2 * k))\<rparr> :: 8 word env"
  let ?f = "\<lparr>name = ''doc.pdf'', file_id = ''1'', getvalue = [7, 8, 9]\<rparr>"
  let ?inps = "[\<lparr>uploaded_file = Some ?f, dpi = 300, uploader_changed = True,
        dpi_changed = False, previous_clicked = False, next_clicked = False\<rparr>,
      \<lparr>uploaded_file = Some ?f, dpi = 300, uploader_changed = False,
        dpi_changed = False, previous_clicked = False, next_clicked = True\<rparr>]"
  let ?s = "(session_clear, [], \<lparr>renders = 0, clock_reads = 0\<rparr>)"
  have shown: "(case fst (app1_session ?E ?inps ?s) of
        Inl e \<Rightarrow> []
      | Inr scrs \<Rightarrow> map (\<lambda>scr. map_option shown_index (page scr)) scrs)
      = [Some 0, Some 0, Some 1]"
    by code_simp
  from page_index_in_bounds [of ?E ?inps "[]" "\<lparr>renders = 0, clock_reads = 0\<rparr>"]
  obtain scrs s' where "app1_session ?E ?inps ?s = (Inr scrs, s')"
    "list_all page_in_bounds scrs" "session_ok (fst s')" by blast
  with shown show ?thesis by simp
qed

end
